theory Spec2Isabelle
  imports Complex_Main
begin

section \<open>Python text\<close>

text \<open>
  A Python \<open>str\<close> is a sequence of Unicode code points; it is modelled as the list of
  these code points. Source literals are ASCII and written through \<open>ascii\<close>; the rupee
  sign is the code point 8377 (U+20B9).

  The engine is modelled twice. The main model computes over the exact reals: it leaves
  out the rounding of binary floating point and the overflow to infinity. The sections on
  binary64 arithmetic model the normalizer and the weighting step of the ranking once
  more with the rounding, the infinities and the NaN of IEEE doubles, for the inputs on
  which the exact model and the code part.
\<close>

type_synonym pystr = "nat list"

definition ascii :: "string \<Rightarrow> pystr" where
  "ascii s = map of_char s"

definition rupee :: nat where
  "rupee = 8377"

definition is_space :: "nat \<Rightarrow> bool" where
  \<comment> \<open>the characters \<open>str.strip()\<close> removes (those with \<open>str.isspace()\<close>)\<close>
  "is_space c = ((9 \<le> c \<and> c \<le> 13) \<or> (28 \<le> c \<and> c \<le> 32) \<or> c = 133 \<or> c = 160
      \<or> c = 5760 \<or> (8192 \<le> c \<and> c \<le> 8202) \<or> c = 8232 \<or> c = 8233 \<or> c = 8239
      \<or> c = 8287 \<or> c = 12288)"

definition is_digit :: "nat \<Rightarrow> bool" where
  \<comment> \<open>the class \<open>[0-9]\<close>\<close>
  "is_digit c = (48 \<le> c \<and> c \<le> 57)"

definition strip :: "pystr \<Rightarrow> pystr" where
  "strip s = rev (dropWhile is_space (rev (dropWhile is_space s)))"

definition lower :: "pystr \<Rightarrow> pystr" where
  \<comment> \<open>\<open>str.lower()\<close> on the ASCII letters; the case mappings of other scripts are not
      modelled and such characters are left as they are\<close>
  "lower s = map (\<lambda>c. if 65 \<le> c \<and> c \<le> 90 then c + 32 else c) s"

definition remove_char :: "nat \<Rightarrow> pystr \<Rightarrow> pystr" where
  \<comment> \<open>\<open>s.replace(c, "")\<close> for a one-character \<open>c\<close>\<close>
  "remove_char c s = filter (\<lambda>x. x \<noteq> c) s"

fun starts_with :: "pystr \<Rightarrow> pystr \<Rightarrow> bool" where
  "starts_with [] s = True"
| "starts_with (p # ps) [] = False"
| "starts_with (p # ps) (c # cs) = (p = c \<and> starts_with ps cs)"

fun contains_str :: "pystr \<Rightarrow> pystr \<Rightarrow> bool" where
  \<comment> \<open>\<open>sub in s\<close>\<close>
  "contains_str sub [] = (sub = [])"
| "contains_str sub (c # cs) = (starts_with sub (c # cs) \<or> contains_str sub cs)"

definition ends_with :: "pystr \<Rightarrow> pystr \<Rightarrow> bool" where
  "ends_with suf s = starts_with (rev suf) (rev s)"

section \<open>Numeric literals\<close>

definition digits_val :: "pystr \<Rightarrow> nat" where
  "digits_val ds = fold (\<lambda>c a. 10 * a + (c - 48)) ds 0"

definition match_unsigned :: "pystr \<Rightarrow> pystr option" where
  \<comment> \<open>the text matched by \<open>[0-9]*\.?[0-9]+\<close> at the start of \<open>s\<close>, greedy with
      backtracking: digits, a dot and digits when the dot is followed by a digit, else the
      leading digits alone when there is one\<close>
  "match_unsigned s =
     (let ds = takeWhile is_digit s; r = dropWhile is_digit s in
      case r of
        [] \<Rightarrow> if ds \<noteq> [] then Some ds else None
      | c # r' \<Rightarrow>
          if c = 46 \<and> takeWhile is_digit r' \<noteq> [] then Some (ds @ [46] @ takeWhile is_digit r')
          else if ds \<noteq> [] then Some ds else None)"

definition match_number :: "pystr \<Rightarrow> pystr option" where
  \<comment> \<open>the text matched by \<open>[-+]?[0-9]*\.?[0-9]+\<close> at the start of \<open>s\<close>\<close>
  "match_number s =
     (case s of
        [] \<Rightarrow> None
      | c # r \<Rightarrow> if c = 43 \<or> c = 45 then map_option ((#) c) (match_unsigned r)
                 else match_unsigned s)"

fun first_number :: "pystr \<Rightarrow> pystr option" where
  \<comment> \<open>\<open>m = re.findall(r"[-+]?[0-9]*\.?[0-9]+", s)\<close>: \<open>None\<close> when \<open>m\<close> is empty, else \<open>m[0]\<close>,
      the match at the leftmost position that has one\<close>
  "first_number [] = None"
| "first_number (c # cs) =
     (case match_number (c # cs) of Some m \<Rightarrow> Some m | None \<Rightarrow> first_number cs)"

fun join_underscores :: "nat \<Rightarrow> pystr \<Rightarrow> pystr option" where
  \<comment> \<open>\<open>float\<close> accepts a single underscore between two digits; the first argument is the
      previous character (0 at the start)\<close>
  "join_underscores prev [] = (if prev = 95 then None else Some [])"
| "join_underscores prev (c # cs) =
     (if c = 95 then (if is_digit prev then join_underscores c cs else None)
      else if prev = 95 \<and> \<not> is_digit c then None
      else map_option ((#) c) (join_underscores c cs))"

definition parse_exponent :: "pystr \<Rightarrow> int option" where
  \<comment> \<open>what follows the mantissa: nothing, or \<open>e\<close>, an optional sign and digits\<close>
  "parse_exponent r =
     (case r of
        [] \<Rightarrow> Some 0
      | c # r1 \<Rightarrow>
          if c = 101 \<or> c = 69 then
            (case r1 of
               [] \<Rightarrow> None
             | d # r2 \<Rightarrow>
                 if d = 43 then (if r2 \<noteq> [] \<and> list_all is_digit r2 then Some (int (digits_val r2)) else None)
                 else if d = 45 then (if r2 \<noteq> [] \<and> list_all is_digit r2 then Some (- int (digits_val r2)) else None)
                 else if list_all is_digit r1 then Some (int (digits_val r1)) else None)
          else None)"

definition scale10 :: "real \<Rightarrow> int \<Rightarrow> real" where
  "scale10 m e = (if 0 \<le> e then m * 10 ^ nat e else m / 10 ^ nat (- e))"

definition parse_unsigned :: "pystr \<Rightarrow> real option" where
  "parse_unsigned s =
     (let ip = takeWhile is_digit s; r = dropWhile is_digit s;
          fp = (case r of [] \<Rightarrow> [] | c # r1 \<Rightarrow> if c = 46 then takeWhile is_digit r1 else []);
          r2 = (case r of [] \<Rightarrow> [] | c # r1 \<Rightarrow> if c = 46 then dropWhile is_digit r1 else r)
      in if ip = [] \<and> fp = [] then None
         else case parse_exponent r2 of
                None \<Rightarrow> None
              | Some e \<Rightarrow> Some (scale10 (real (digits_val ip) + real (digits_val fp) / 10 ^ length fp) e))"

definition py_float :: "pystr \<Rightarrow> real option" where
  \<comment> \<open>\<open>float(s)\<close> on text: \<open>None\<close> is the \<open>ValueError\<close>. The spellings of infinity and NaN
      are \<open>None\<close> as well: the callers that pass free text round the product to an
      integer inside the same \<open>try\<close>, which raises on a non-finite value. Digits of other
      scripts are not modelled.\<close>
  "py_float s =
     (case join_underscores 0 (strip s) of
        None \<Rightarrow> None
      | Some t \<Rightarrow>
          (case t of
             [] \<Rightarrow> None
           | c # r \<Rightarrow> if c = 43 then parse_unsigned r
                      else if c = 45 then map_option uminus (parse_unsigned r)
                      else parse_unsigned t))"

definition py_round :: "real \<Rightarrow> int" where
  \<comment> \<open>\<open>int(round(x))\<close>: to the nearest integer, a tie to the even one\<close>
  "py_round x =
     (let f = \<lfloor>x\<rfloor>; d = x - of_int f in
      if d < 1 / 2 then f else if 1 / 2 < d then f + 1 else if even f then f else f + 1)"

section \<open>Budget parser\<close>

definition literal_times :: "real \<Rightarrow> pystr \<Rightarrow> int option" where
  \<comment> \<open>\<open>m = re.findall(...); if not m: return None; try: return int(round(float(m[0]) * k));
      except: return None\<close>\<close>
  "literal_times k s0 =
     (case first_number s0 of
        None \<Rightarrow> None
      | Some m \<Rightarrow> (case py_float m of None \<Rightarrow> None | Some v \<Rightarrow> Some (py_round (v * k))))"

definition parse_budget_input :: "pystr option \<Rightarrow> int option" where
  \<comment> \<open>over exact reals: a literal is taken at its decimal value, where the code rounds it
      to a double first, and a literal too large for a double, whose rounding the code
      leaves to raise outside any \<open>try\<close>, is not modelled\<close>
  "parse_budget_input s =
     (case s of
        None \<Rightarrow> None
      | Some t \<Rightarrow>
          (let s0 = remove_char rupee (remove_char 44 (lower (strip t))) in
           if s0 = [] then None
           else if contains_str (ascii ''cr'') s0 \<or> contains_str (ascii ''crore'') s0
             then literal_times 10000000 s0
           else if (contains_str (ascii ''lakh'') s0 \<or> contains_str (ascii ''lakhs'') s0)
                   \<and> \<not> ends_with (ascii ''k'') s0
             then literal_times 100000 s0
           else
             (case (if ends_with (ascii ''l'') s0 \<and> \<not> ends_with (ascii ''k'') s0
                    then py_float (butlast s0) else None) of
                Some v \<Rightarrow> Some (py_round (v * 100000))
              | None \<Rightarrow>
                  if ends_with (ascii ''k'') s0 then
                    (case py_float (butlast s0) of
                       None \<Rightarrow> None
                     | Some v \<Rightarrow> Some (py_round (v * 1000)))
                  else
                    (case first_number s0 of
                       None \<Rightarrow> None
                     | Some m \<Rightarrow>
                         (case py_float m of
                            None \<Rightarrow> None
                          | Some val \<Rightarrow>
                              if 100000 \<le> val then Some (py_round val)
                              else if 1000 < val \<and> val < 100000 then Some (py_round val)
                              else Some (py_round (val * 100000)))))))"

section \<open>Series and frames\<close>

text \<open>
  A cell of a frame is a number, a text or missing (NaN). A column is the list of its
  cells, a frame has a row count and named columns, each with one cell per row
  (\<open>wf_table\<close>). A numeric Series is a list of optional reals, \<open>None\<close> being NaN.
  How pandas reads a text cell as a number and how Python prints a number as text are
  parameters \<open>P\<close> and \<open>S\<close> of the model.
\<close>

datatype cell = Num real | Str pystr | NaN

type_synonym column = "cell list"

type_synonym series = "real option list"

record table =
  nrows :: nat
  cols :: "string \<rightharpoonup> column"

definition wf_table :: "table \<Rightarrow> bool" where
  "wf_table t = (\<forall>c col. cols t c = Some col \<longrightarrow> length col = nrows t)"

definition to_numeric :: "(pystr \<Rightarrow> real option) \<Rightarrow> column \<Rightarrow> series" where
  \<comment> \<open>\<open>pd.to_numeric(s, errors="coerce")\<close>\<close>
  "to_numeric P s = map (\<lambda>c. case c of Num r \<Rightarrow> Some r | Str t \<Rightarrow> P t | NaN \<Rightarrow> None) s"

definition as_column :: "series \<Rightarrow> column" where
  "as_column s = map (\<lambda>x. case x of Some v \<Rightarrow> Num v | None \<Rightarrow> NaN) s"

definition series_of :: "column \<Rightarrow> series" where
  \<comment> \<open>a float column read back from a frame (such a column holds no text)\<close>
  "series_of c = map (\<lambda>x. case x of Num v \<Rightarrow> Some v | _ \<Rightarrow> None) c"

definition present :: "series \<Rightarrow> real list" where
  "present s = map the (filter (\<lambda>x. x \<noteq> None) s)"

definition median :: "series \<Rightarrow> real option" where
  \<comment> \<open>\<open>s.median()\<close>: NaN skipped, NaN when nothing is left\<close>
  "median s =
     (let xs = sort (present s); n = length xs in
      if n = 0 then None
      else if odd n then Some (xs ! (n div 2))
      else Some ((xs ! (n div 2 - 1) + xs ! (n div 2)) / 2))"

definition fillna :: "real option \<Rightarrow> series \<Rightarrow> series" where
  "fillna v s = map (\<lambda>x. case x of None \<Rightarrow> v | Some y \<Rightarrow> Some y) s"

definition series_min :: "series \<Rightarrow> real option" where
  "series_min s = (case present s of [] \<Rightarrow> None | x # xs \<Rightarrow> Some (fold min xs x))"

definition series_max :: "series \<Rightarrow> real option" where
  "series_max s = (case present s of [] \<Rightarrow> None | x # xs \<Rightarrow> Some (fold max xs x))"

definition zeros :: "nat \<Rightarrow> series" where
  \<comment> \<open>\<open>pd.Series(0.0, index=...)\<close>\<close>
  "zeros n = replicate n (Some 0)"

section \<open>Attribute normalizer\<close>

definition normalize_series :: "(pystr \<Rightarrow> real option) \<Rightarrow> column \<Rightarrow> series" where
  "normalize_series P c =
     (let s = to_numeric P c in
      if list_all (\<lambda>x. x = None) s then zeros (length s)
      else
        let s_filled = fillna (median s) s;
            mn = series_min s_filled;
            mx = series_max s_filled
        in case mn of
             None \<Rightarrow> zeros (length s)
           | Some a \<Rightarrow>
               (case mx of
                  None \<Rightarrow> zeros (length s)
                | Some b \<Rightarrow>
                    if b = a then zeros (length s)
                    else map (map_option (\<lambda>v. (v - a) / (b - a))) s_filled))"

definition s_filled :: "(pystr \<Rightarrow> real option) \<Rightarrow> column \<Rightarrow> series" where
  \<comment> \<open>the variable \<open>s_filled\<close> of \<open>normalize_series\<close>: the coerced column with its missing
      entries replaced by the median\<close>
  "s_filled P c = fillna (median (to_numeric P c)) (to_numeric P c)"

section \<open>Axis computer\<close>

definition numeric_inputs :: "string list" where
  "numeric_inputs = [''power_bhp'', ''torque_nm'', ''top_speed_kmph'', ''mileage_value'',
     ''range_km_est'', ''airbags_num'', ''adas_level_num'', ''service_cost_per_year_avg'',
     ''ground_clearance_mm'', ''sunroof_yes'', ''cruise_control_yes'', ''price_inr'']"

definition perf_inputs :: "string list" where
  "perf_inputs = [''power_bhp'', ''torque_nm'', ''top_speed_kmph'']"

definition eco_inputs :: "string list" where
  "eco_inputs = [''mileage_value'', ''range_km_est'']"

definition safety_inputs :: "string list" where
  "safety_inputs = [''airbags_num'', ''adas_level_num'']"

definition comfort_inputs :: "string list" where
  "comfort_inputs = [''sunroof_yes'', ''cruise_control_yes'', ''ground_clearance_mm'']"

definition coerce_col :: "(pystr \<Rightarrow> real option) \<Rightarrow> string \<Rightarrow> table \<Rightarrow> table" where
  \<comment> \<open>\<open>if col in df.columns: df[col] = pd.to_numeric(df[col], errors="coerce")\<close>\<close>
  "coerce_col P c df =
     (case cols df c of
        None \<Rightarrow> df
      | Some col \<Rightarrow> df\<lparr>cols := (cols df)(c \<mapsto> as_column (to_numeric P col))\<rparr>)"

definition mean_skipna :: "series \<Rightarrow> real option" where
  \<comment> \<open>the mean of one row of \<open>DataFrame.mean(axis=1)\<close>\<close>
  "mean_skipna vs =
     (let p = present vs in if p = [] then None else Some (sum_list p / real (length p)))"

definition row_mean :: "nat \<Rightarrow> series list \<Rightarrow> series" where
  \<comment> \<open>\<open>pd.concat(ss, axis=1).mean(axis=1)\<close> for Series over the frame's rows\<close>
  "row_mean n ss = map (\<lambda>i. mean_skipna (map (\<lambda>s. s ! i) ss)) [0..<n]"

definition mean_axis :: "(pystr \<Rightarrow> real option) \<Rightarrow> table \<Rightarrow> string list \<Rightarrow> series" where
  "mean_axis P df names =
     (let cs = filter (\<lambda>c. cols df c \<noteq> None) names in
      if cs = [] then zeros (nrows df)
      else row_mean (nrows df) (map (\<lambda>c. normalize_series P (the (cols df c))) cs))"

definition inverted_axis :: "(pystr \<Rightarrow> real option) \<Rightarrow> table \<Rightarrow> string \<Rightarrow> series" where
  \<comment> \<open>\<open>(1.0 - normalize_series(df[c].fillna(df[c].median()))) if c in df.columns
      else pd.Series(0.0, index=df.index)\<close>\<close>
  "inverted_axis P df c =
     (case cols df c of
        None \<Rightarrow> zeros (nrows df)
      | Some col \<Rightarrow>
          let s = series_of col in
          map (map_option (\<lambda>v. 1 - v)) (normalize_series P (as_column (fillna (median s) s))))"

definition compute_axes :: "(pystr \<Rightarrow> real option) \<Rightarrow> table \<Rightarrow> table" where
  "compute_axes P df0 =
     (let df = fold (coerce_col P) numeric_inputs df0;
          perf_norm = mean_axis P df perf_inputs;
          eco_norm = mean_axis P df eco_inputs;
          safety_norm = mean_axis P df safety_inputs;
          comfort_norm = mean_axis P df comfort_inputs;
          ownership_norm = inverted_axis P df ''service_cost_per_year_avg'';
          price_axis = inverted_axis P df ''price_inr''
      in df\<lparr>cols := (cols df)
            (''axis_performance'' \<mapsto> as_column perf_norm,
             ''axis_economy'' \<mapsto> as_column eco_norm,
             ''axis_safety'' \<mapsto> as_column safety_norm,
             ''axis_comfort'' \<mapsto> as_column comfort_norm,
             ''axis_ownership'' \<mapsto> as_column ownership_norm,
             ''axis_price'' \<mapsto> as_column price_axis)\<rparr>)"

definition mean_axes :: "(string \<times> string list) list" where
  \<comment> \<open>the axes computed as a mean, each with its contributing columns\<close>
  "mean_axes = [(''axis_performance'', perf_inputs), (''axis_economy'', eco_inputs),
     (''axis_safety'', safety_inputs), (''axis_comfort'', comfort_inputs)]"

definition inverted_axes :: "(string \<times> string) list" where
  \<comment> \<open>the axes computed as one minus a normalized cost column\<close>
  "inverted_axes = [(''axis_ownership'', ''service_cost_per_year_avg''),
     (''axis_price'', ''price_inr'')]"

definition axis_mean :: "(pystr \<Rightarrow> real option) \<Rightarrow> table \<Rightarrow> string list \<Rightarrow> column" where
  \<comment> \<open>a mean axis as the specification words it: per record the arithmetic mean of the
      normalized contributing columns present in the frame, and zero when none is\<close>
  "axis_mean P df names =
     (let cs = filter (\<lambda>c. c \<in> dom (cols df)) names in
      map (\<lambda>i. Num (if cs = [] then 0
                     else sum_list (map (\<lambda>c. the (normalize_series P (the (cols df c)) ! i)) cs)
                          / real (length cs)))
        [0..<nrows df])"

definition axis_inverted :: "(pystr \<Rightarrow> real option) \<Rightarrow> table \<Rightarrow> string \<Rightarrow> column" where
  \<comment> \<open>an inverted axis as the specification words it: one minus the normalized column,
      and zero when the column is not in the frame\<close>
  "axis_inverted P df c =
     (case cols df c of
        None \<Rightarrow> replicate (nrows df) (Num 0)
      | Some col \<Rightarrow> map (\<lambda>i. Num (1 - the (normalize_series P col ! i))) [0..<nrows df])"


section \<open>Ranking engine\<close>

datatype error = KeyError | TypeError | ZeroDivisionError

definition base_axes :: "string list" where
  "base_axes = [''axis_performance'', ''axis_economy'', ''axis_safety'', ''axis_comfort'',
     ''axis_ownership'', ''axis_price'']"

definition truthy :: "pystr option \<Rightarrow> bool" where
  \<comment> \<open>truth value of an optional text: neither \<open>None\<close> nor empty\<close>
  "truthy s = (case s of None \<Rightarrow> False | Some t \<Rightarrow> t \<noteq> [])"

definition astype_str :: "(real \<Rightarrow> pystr) \<Rightarrow> cell \<Rightarrow> pystr" where
  \<comment> \<open>one cell of \<open>.astype(str)\<close>\<close>
  "astype_str S c = (case c of Str t \<Rightarrow> t | Num v \<Rightarrow> S v | NaN \<Rightarrow> ascii ''nan'')"

definition add_fuel_pref :: "(real \<Rightarrow> pystr) \<Rightarrow> pystr \<Rightarrow> table \<Rightarrow> table" where
  \<comment> \<open>\<open>D["axis_fuel_pref"] = (D.get("fuel_category", pd.Series(dtype=object)).fillna("")
      .astype(str) == selected_fuel).astype(float)\<close>; the empty default aligns to NaN rows\<close>
  "add_fuel_pref S sel D =
     D\<lparr>cols := (cols D)(''axis_fuel_pref'' \<mapsto>
        (case cols D ''fuel_category'' of
           None \<Rightarrow> replicate (nrows D) NaN
         | Some col \<Rightarrow>
             map (\<lambda>c. Num (if astype_str S (case c of NaN \<Rightarrow> Str [] | _ \<Rightarrow> c) = sel
                            then 1 else 0)) col))\<rparr>"

definition add_body_pref :: "(real \<Rightarrow> pystr) \<Rightarrow> pystr \<Rightarrow> table \<Rightarrow> table" where
  \<comment> \<open>\<open>D["body_clean"] = D.get("body_type", D.get("original_body_type", pd.Series()))
      .astype(str).str.strip().str.lower()\<close>, then the literal substring test
      \<open>str.contains(re.escape(sel_body), na=False)\<close>\<close>
  "add_body_pref S selected_body D =
     (let src = (case cols D ''body_type'' of
                   Some col \<Rightarrow> Some col
                 | None \<Rightarrow> cols D ''original_body_type'');
          sel_body = lower (strip selected_body)
      in case src of
           None \<Rightarrow>
             D\<lparr>cols := (cols D)(''body_clean'' \<mapsto> replicate (nrows D) NaN,
                                 ''axis_body_pref'' \<mapsto> replicate (nrows D) (Num 0))\<rparr>
         | Some col \<Rightarrow>
             let body_clean = map (\<lambda>c. lower (strip (astype_str S c))) col in
             D\<lparr>cols := (cols D)(''body_clean'' \<mapsto> map Str body_clean,
                                 ''axis_body_pref'' \<mapsto>
                                    map (\<lambda>t. Num (if contains_str sel_body t then 1 else 0))
                                      body_clean)\<rparr>)"

definition extra_axis_names :: "bool \<Rightarrow> bool \<Rightarrow> pystr option \<Rightarrow> pystr option \<Rightarrow> string list" where
  \<comment> \<open>the soft-preference axes built: \<open>if soft_fuel and selected_fuel: ...\<close>,
      \<open>if soft_body and selected_body: ...\<close>\<close>
  "extra_axis_names soft_fuel soft_body selected_fuel selected_body =
     (if soft_fuel \<and> truthy selected_fuel then [''axis_fuel_pref''] else [])
     @ (if soft_body \<and> truthy selected_body then [''axis_body_pref''] else [])"

definition weight_keys :: "string list \<Rightarrow> string list" where
  "weight_keys axis_cols =
     [''performance'', ''economy'', ''safety'', ''comfort'', ''ownership'', ''price'']
     @ (if ''axis_fuel_pref'' \<in> set axis_cols then [''fuel_pref''] else [])
     @ (if ''axis_body_pref'' \<in> set axis_cols then [''body_pref''] else [])"

definition weight_vector :: "(string \<rightharpoonup> real) \<Rightarrow> string list \<Rightarrow> real list" where
  \<comment> \<open>\<open>w = np.array([weights.get(k, 0.0) for k in weight_keys]); if w.sum() == 0:
      w = np.ones_like(w); w = w / w.sum()\<close>\<close>
  "weight_vector weights keys =
     (let w = map (\<lambda>k. case weights k of None \<Rightarrow> 0 | Some v \<Rightarrow> v) keys;
          w1 = (if sum_list w = 0 then map (\<lambda>_. 1) w else w)
      in map (\<lambda>x. x / sum_list w1) w1)"

definition fillna0 :: "column \<Rightarrow> error + real list" where
  \<comment> \<open>the operand \<open>D[col].fillna(0)\<close> of a product with a float; a text cell is a
      \<open>TypeError\<close> there\<close>
  "fillna0 col =
     (if list_ex (\<lambda>c. case c of Str _ \<Rightarrow> True | _ \<Rightarrow> False) col then Inl TypeError
      else Inr (map (\<lambda>c. case c of Num v \<Rightarrow> v | _ \<Rightarrow> 0) col))"

fun add_axes :: "table \<Rightarrow> (real \<times> string) list \<Rightarrow> real list \<Rightarrow> error + real list" where
  \<comment> \<open>\<open>for i, col in enumerate(axis_cols): D["final_score"] += w[i] * D[col].fillna(0)\<close>\<close>
  "add_axes D [] acc = Inr acc"
| "add_axes D ((wi, col) # rest) acc =
     (case cols D col of
        None \<Rightarrow> Inl KeyError
      | Some c \<Rightarrow>
          (case fillna0 c of
             Inl e \<Rightarrow> Inl e
           | Inr vs \<Rightarrow> add_axes D rest (map (\<lambda>(a, v). a + wi * v) (zip acc vs))))"

fun budget_penalty :: "real \<Rightarrow> column \<Rightarrow> error + real list" where
  \<comment> \<open>\<open>D["price_inr"].apply(lambda p: 0 if pd.isna(p) else max(0, (p - maxb) / (maxb + 1)))\<close>\<close>
  "budget_penalty maxb [] = Inr []"
| "budget_penalty maxb (c # cs) =
     (case (case c of
              NaN \<Rightarrow> Inr 0
            | Str _ \<Rightarrow> Inl TypeError
            | Num p \<Rightarrow> if maxb + 1 = 0 then Inl ZeroDivisionError
                       else Inr (max 0 ((p - maxb) / (maxb + 1)))) of
        Inl e \<Rightarrow> Inl e
      | Inr x \<Rightarrow> (case budget_penalty maxb cs of Inl e \<Rightarrow> Inl e | Inr xs \<Rightarrow> Inr (x # xs)))"

definition max_budget :: "(string \<rightharpoonup> real) option \<Rightarrow> real option" where
  \<comment> \<open>the value tested by \<open>if filters and filters.get("max_budget")\<close>: \<open>None\<close> when the test
      is false (no filters, no such key, or the value 0; an empty map has no key)\<close>
  "max_budget filters =
     (case filters of
        None \<Rightarrow> None
      | Some f \<Rightarrow> (case f ''max_budget'' of None \<Rightarrow> None | Some b \<Rightarrow> if b = 0 then None else Some b))"

definition apply_budget ::
  "(string \<rightharpoonup> real) option \<Rightarrow> table \<Rightarrow> real list \<Rightarrow> error + table \<times> real list" where
  \<comment> \<open>\<open>if filters and filters.get("max_budget"): maxb = filters["max_budget"];
      D["budget_penalty"] = D["price_inr"].apply(...);
      D["final_score"] = D["final_score"] - 0.5 * D["budget_penalty"]\<close>, on the frame and the
      values of its \<open>final_score\<close> column\<close>
  "apply_budget filters D fs =
     (case max_budget filters of
        None \<Rightarrow> Inr (D, fs)
      | Some maxb \<Rightarrow>
          (case cols D ''price_inr'' of
             None \<Rightarrow> Inl KeyError
           | Some pc \<Rightarrow>
               (case budget_penalty maxb pc of
                  Inl e \<Rightarrow> Inl e
                | Inr pen \<Rightarrow>
                    let fs' = map (\<lambda>(a, p). a - 0.5 * p) (zip fs pen) in
                    Inr (D\<lparr>cols := (cols D)(''budget_penalty'' \<mapsto> map Num pen,
                                            ''final_score'' \<mapsto> map Num fs')\<rparr>, fs'))))"

definition with_axes :: "(pystr \<Rightarrow> real option) \<Rightarrow> table \<Rightarrow> table" where
  \<comment> \<open>\<open>if not all(ax in D.columns for ax in [...]): D = compute_axes(D)\<close>\<close>
  "with_axes P D = (if list_all (\<lambda>ax. cols D ax \<noteq> None) base_axes then D else compute_axes P D)"

definition with_prefs ::
  "(real \<Rightarrow> pystr) \<Rightarrow> bool \<Rightarrow> bool \<Rightarrow> pystr option \<Rightarrow> pystr option \<Rightarrow> table \<Rightarrow> table" where
  \<comment> \<open>\<open>if soft_fuel and selected_fuel: ...\<close> then \<open>if soft_body and selected_body: ...\<close>\<close>
  "with_prefs S soft_fuel soft_body selected_fuel selected_body D0 =
     (let D1 = (if soft_fuel \<and> truthy selected_fuel
                then add_fuel_pref S (the selected_fuel) D0 else D0)
      in if soft_body \<and> truthy selected_body
         then add_body_pref S (the selected_body) D1 else D1)"

definition scored ::
  "(pystr \<Rightarrow> real option) \<Rightarrow> (real \<Rightarrow> pystr) \<Rightarrow> table \<Rightarrow> (string \<rightharpoonup> real) \<Rightarrow>
   (string \<rightharpoonup> real) option \<Rightarrow> bool \<Rightarrow> bool \<Rightarrow> pystr option \<Rightarrow> pystr option \<Rightarrow>
   error + table \<times> real list" where
  \<comment> \<open>the body of \<open>recommend\<close> up to the sort: the frame with its added columns, and the
      values of its \<open>final_score\<close> column\<close>
  "scored P S df weights filters soft_fuel soft_body selected_fuel selected_body =
     (let D2 = with_prefs S soft_fuel soft_body selected_fuel selected_body (with_axes P df);
          axis_cols = base_axes @ extra_axis_names soft_fuel soft_body selected_fuel selected_body;
          w = weight_vector weights (weight_keys axis_cols)
      in case add_axes D2 (zip w axis_cols) (replicate (nrows D2) 0) of
           Inl e \<Rightarrow> Inl e
         | Inr fs \<Rightarrow>
             apply_budget filters (D2\<lparr>cols := (cols D2)(''final_score'' \<mapsto> map Num fs)\<rparr>) fs)"

definition sort_order :: "real list \<Rightarrow> nat list" where
  \<comment> \<open>the row order of \<open>sort_values("final_score", ascending=False)\<close>; equal scores are
      kept in their original order here, which no statement below relies on\<close>
  "sort_order fs = sort_key (\<lambda>i. - (fs ! i)) [0..<length fs]"

definition head :: "int \<Rightarrow> 'a list \<Rightarrow> 'a list" where
  \<comment> \<open>\<open>head(n)\<close>: the first \<open>n\<close> rows, and for a negative \<open>n\<close> all rows but the last \<open>-n\<close>\<close>
  "head n xs = (if 0 \<le> n then take (nat n) xs else take (nat (int (length xs) + n)) xs)"

definition take_rows :: "nat list \<Rightarrow> table \<Rightarrow> table" where
  \<comment> \<open>the frame of the given rows, in that order, renumbered\<close>
  "take_rows idx D =
     \<lparr>nrows = length idx, cols = (\<lambda>c. map_option (\<lambda>col. map ((!) col) idx) (cols D c))\<rparr>"

definition recommend ::
  "(pystr \<Rightarrow> real option) \<Rightarrow> (real \<Rightarrow> pystr) \<Rightarrow> table \<Rightarrow> (string \<rightharpoonup> real) \<Rightarrow> int \<Rightarrow>
   (string \<rightharpoonup> real) option \<Rightarrow> bool \<Rightarrow> bool \<Rightarrow> pystr option \<Rightarrow> pystr option \<Rightarrow>
   real \<Rightarrow> real \<Rightarrow> error + table" where
  "recommend P S df weights top_n filters soft_fuel soft_body selected_fuel selected_body
     soft_fuel_weight soft_body_weight =
     (case scored P S df weights filters soft_fuel soft_body selected_fuel selected_body of
        Inl e \<Rightarrow> Inl e
      | Inr (D, fs) \<Rightarrow> Inr (take_rows (head top_n (sort_order fs)) D))"

definition axis_value :: "table \<Rightarrow> string \<Rightarrow> nat \<Rightarrow> real" where
  \<comment> \<open>row \<open>i\<close> of \<open>D[col].fillna(0)\<close>\<close>
  "axis_value D col i =
     (case cols D col of
        None \<Rightarrow> 0
      | Some c \<Rightarrow> (case c ! i of Num v \<Rightarrow> v | _ \<Rightarrow> 0))"

definition numeric_col :: "column \<Rightarrow> bool" where
  \<comment> \<open>a column without text cells, the columns \<open>fillna0\<close> accepts\<close>
  "numeric_col col = (\<not> list_ex (\<lambda>c. case c of Str _ \<Rightarrow> True | _ \<Rightarrow> False) col)"

section \<open>Binary64 arithmetic\<close>

text \<open>
  A double is a finite value, given by the real number it stands for, or one of the two
  infinities; \<open>None\<close> is NaN. The sign of a zero is not modelled. An operation on finite
  values rounds the exact result to the nearest double, a tie to the even significand,
  and gives an infinity when the rounded result reaches \<open>2 ^ 1024\<close>.
\<close>

datatype fval = Fin real | PInf | NInf

type_synonym float = "fval option"

definition pow2 :: "int \<Rightarrow> real" where
  "pow2 e = (if 0 \<le> e then 2 ^ nat e else 1 / 2 ^ nat (- e))"

definition round_double :: "real \<Rightarrow> fval" where
  \<comment> \<open>53 significant bits, exponent at least -1022 (below it the subnormal spacing)\<close>
  "round_double x =
     (if x = 0 then Fin 0
      else
        let e = max \<lfloor>log 2 \<bar>x\<bar>\<rfloor> (- 1022);
            u = pow2 (e - 52);
            r = real_of_int (py_round (x / u)) * u
        in if pow2 1024 \<le> \<bar>r\<bar> then (if 0 < x then PInf else NInf) else Fin r)"

fun fneg :: "float \<Rightarrow> float" where
  "fneg None = None"
| "fneg (Some (Fin a)) = Some (Fin (- a))"
| "fneg (Some PInf) = Some NInf"
| "fneg (Some NInf) = Some PInf"

fun fadd :: "float \<Rightarrow> float \<Rightarrow> float" where
  "fadd None y = None"
| "fadd x None = None"
| "fadd (Some (Fin a)) (Some (Fin b)) = Some (round_double (a + b))"
| "fadd (Some PInf) (Some NInf) = None"
| "fadd (Some NInf) (Some PInf) = None"
| "fadd (Some PInf) y = Some PInf"
| "fadd (Some NInf) y = Some NInf"
| "fadd x (Some PInf) = Some PInf"
| "fadd x (Some NInf) = Some NInf"

definition fsub :: "float \<Rightarrow> float \<Rightarrow> float" where
  "fsub x y = fadd x (fneg y)"

fun fsign :: "fval \<Rightarrow> int" where
  "fsign (Fin a) = (if a < 0 then - 1 else if a = 0 then 0 else 1)"
| "fsign PInf = 1"
| "fsign NInf = - 1"

definition inf_of_sign :: "int \<Rightarrow> float" where
  \<comment> \<open>the infinity of a sign, NaN for the sign 0 (infinity times zero, zero by zero)\<close>
  "inf_of_sign s = (if s = 0 then None else if 0 < s then Some PInf else Some NInf)"


fun fdiv :: "float \<Rightarrow> float \<Rightarrow> float" where
  \<comment> \<open>array division: a zero divisor gives an infinity or NaN, no exception\<close>
  "fdiv None y = None"
| "fdiv x None = None"
| "fdiv (Some (Fin a)) (Some (Fin b)) =
     (if b = 0 then inf_of_sign (fsign (Fin a)) else Some (round_double (a / b)))"
| "fdiv (Some (Fin a)) (Some y) = Some (Fin 0)"
| "fdiv (Some x) (Some (Fin b)) = inf_of_sign (fsign x * (if b < 0 then - 1 else 1))"
| "fdiv (Some x) (Some y) = None"

fun fval_le :: "fval \<Rightarrow> fval \<Rightarrow> bool" where
  "fval_le NInf y = True"
| "fval_le x PInf = True"
| "fval_le (Fin a) (Fin b) = (a \<le> b)"
| "fval_le x y = False"

definition fmin :: "fval \<Rightarrow> fval \<Rightarrow> fval" where
  "fmin x y = (if fval_le x y then x else y)"

definition fmax :: "fval \<Rightarrow> fval \<Rightarrow> fval" where
  "fmax x y = (if fval_le x y then y else x)"

fun finsert :: "fval \<Rightarrow> fval list \<Rightarrow> fval list" where
  "finsert x [] = [x]"
| "finsert x (y # ys) = (if fval_le x y then x # y # ys else y # finsert x ys)"

definition fsort :: "fval list \<Rightarrow> fval list" where
  "fsort xs = foldr finsert xs []"

section \<open>Attribute normalizer in binary64\<close>

datatype fcell = FNum fval | FStr pystr | FNaN

definition to_numeric_ieee :: "(pystr \<Rightarrow> float) \<Rightarrow> fcell list \<Rightarrow> float list" where
  "to_numeric_ieee P s = map (\<lambda>c. case c of FNum v \<Rightarrow> Some v | FStr t \<Rightarrow> P t | FNaN \<Rightarrow> None) s"

definition present_ieee :: "float list \<Rightarrow> fval list" where
  "present_ieee s = map the (filter (\<lambda>x. x \<noteq> None) s)"

definition median_ieee :: "float list \<Rightarrow> float" where
  \<comment> \<open>for an even count the two middle values are added and the sum is halved\<close>
  "median_ieee s =
     (let xs = fsort (present_ieee s); n = length xs in
      if n = 0 then None
      else if odd n then Some (xs ! (n div 2))
      else fdiv (fadd (Some (xs ! (n div 2 - 1))) (Some (xs ! (n div 2)))) (Some (Fin 2)))"

definition fillna_ieee :: "float \<Rightarrow> float list \<Rightarrow> float list" where
  "fillna_ieee v s = map (\<lambda>x. case x of None \<Rightarrow> v | Some y \<Rightarrow> Some y) s"

definition series_min_ieee :: "float list \<Rightarrow> float" where
  "series_min_ieee s = (case present_ieee s of [] \<Rightarrow> None | x # xs \<Rightarrow> Some (fold fmin xs x))"

definition series_max_ieee :: "float list \<Rightarrow> float" where
  "series_max_ieee s = (case present_ieee s of [] \<Rightarrow> None | x # xs \<Rightarrow> Some (fold fmax xs x))"

definition normalize_series_ieee :: "(pystr \<Rightarrow> float) \<Rightarrow> fcell list \<Rightarrow> float list" where
  \<comment> \<open>\<open>normalize_series\<close>, line by line, on doubles: \<open>(s_filled - mn) / (mx - mn)\<close> subtracts
      and divides with rounding and overflow\<close>
  "normalize_series_ieee P c =
     (let s = to_numeric_ieee P c in
      if list_all (\<lambda>x. x = None) s then replicate (length s) (Some (Fin 0))
      else
        let s_filled = fillna_ieee (median_ieee s) s;
            mn = series_min_ieee s_filled;
            mx = series_max_ieee s_filled
        in case mn of
             None \<Rightarrow> replicate (length s) (Some (Fin 0))
           | Some a \<Rightarrow>
               (case mx of
                  None \<Rightarrow> replicate (length s) (Some (Fin 0))
                | Some b \<Rightarrow>
                    if b = a then replicate (length s) (Some (Fin 0))
                    else map (\<lambda>v. fdiv (fsub v (Some a)) (fsub (Some b) (Some a))) s_filled))"

section \<open>Weights and scores in binary64\<close>







section \<open>Example data\<close>

definition example_parse :: "pystr \<Rightarrow> real option" where
  \<comment> \<open>a reader of text cells for the worked examples: decimal literals\<close>
  "example_parse = py_float"

definition example_show :: "real \<Rightarrow> pystr" where
  \<comment> \<open>a printer of numbers for the worked examples (no example prints a number)\<close>
  "example_show = (\<lambda>_. [])"

definition example_cars :: table where
  "example_cars =
     \<lparr>nrows = 3,
      cols = [''price_inr'' \<mapsto> [Num 500000, Num 1200000, Num 2000000],
              ''power_bhp'' \<mapsto> [Num 80, NaN, Num 120],
              ''torque_nm'' \<mapsto> [Num 100, Num 200, Str (ascii ''n/a'')]]\<rparr>"


definition example_no_price :: table where
  \<comment> \<open>a catalog without a price column\<close>
  "example_no_price = \<lparr>nrows = 2, cols = [''power_bhp'' \<mapsto> [Num 80, Num 120]]\<rparr>"




definition double_1e308 :: real where
  \<comment> \<open>the double written \<open>1e308\<close>\<close>
  "double_1e308 = 5010420900022432 * 2 ^ 971"




section \<open>Budget parser: the specified examples\<close>

lemmas budget_defs =
  parse_budget_input_def ascii_def rupee_def is_space_def is_digit_def strip_def lower_def
  remove_char_def ends_with_def digits_val_def match_unsigned_def match_number_def
  parse_exponent_def scale10_def parse_unsigned_def py_float_def py_round_def
  literal_times_def

text \<open>
  C6: the seven specified pairs of the budget parser: \<open>"10"\<close> gives 1,000,000,
  \<open>"10.5"\<close> gives 1,050,000, \<open>"100k"\<close> gives 100,000, \<open>"1.2cr"\<close> gives 12,000,000, the
  rupee sign followed by \<open>"12.5"\<close> gives 1,250,000, the empty text gives no result (and no
  error), and \<open>"50000"\<close> gives 50,000.
\<close>

theorem parse_budget_examples:
  "parse_budget_input (Some (ascii ''10'')) = Some 1000000
   \<and> parse_budget_input (Some (ascii ''10.5'')) = Some 1050000
   \<and> parse_budget_input (Some (ascii ''100k'')) = Some 100000
   \<and> parse_budget_input (Some (ascii ''1.2cr'')) = Some 12000000
   \<and> parse_budget_input (Some (rupee # ascii ''12.5'')) = Some 1250000
   \<and> parse_budget_input (Some []) = None
   \<and> parse_budget_input (Some (ascii ''50000'')) = Some 50000"
  by (simp add: budget_defs)

text \<open>
  C9, as stated (the literal 1,000 is taken as an absolute amount, so that \<open>"1000"\<close> gives
  1,000), does not hold: the absolute branch needs \<open>1000 < val\<close>.
\<close>

theorem parse_budget_1000_counterexample:
  "parse_budget_input (Some (ascii ''1000'')) \<noteq> Some 1000"
  by (simp add: budget_defs)

text \<open>
  C9, amended: a first numeric literal of exactly 1,000 is not strictly between 1,000 and
  100,000, so it is read as a lakh amount and \<open>"1000"\<close> gives 100,000,000; the absolute
  branch starts strictly above 1,000, \<open>"1001"\<close> giving 1,001.
\<close>

theorem parse_budget_1000_lakh:
  "parse_budget_input (Some (ascii ''1000'')) = Some 100000000
   \<and> parse_budget_input (Some (ascii ''1001'')) = Some 1001"
  by (simp add: budget_defs)

section \<open>Attribute normalizer: range and extremes\<close>

lemma present_Nil_iff: "present s = [] \<longleftrightarrow> list_all (\<lambda>x. x = None) s"
  by (induction s) (auto simp: present_def)

lemma set_present: "set (present s) = {v. Some v \<in> set s}"
  by (induction s) (auto simp: present_def)

lemma length_to_numeric: "length (to_numeric P c) = length c"
  by (simp add: to_numeric_def)

lemma fillna_None: "fillna None s = s"
  by (induction s) (auto simp: fillna_def split: option.splits)

lemma fillna_Some: "fillna (Some m) s = map (\<lambda>x. Some (case x of None \<Rightarrow> m | Some y \<Rightarrow> y)) s"
  by (induction s) (auto simp: fillna_def split: option.splits)

lemma present_map_Some: "present (map (\<lambda>x. Some (f x)) s) = map f s"
  by (induction s) (auto simp: present_def)

lemma series_min_Min: "present s \<noteq> [] \<Longrightarrow> series_min s = Some (Min (set (present s)))"
  using Min.set_eq_fold [of "hd (present s)" "tl (present s)"]
  by (cases "present s") (simp_all add: series_min_def)

lemma series_max_Max: "present s \<noteq> [] \<Longrightarrow> series_max s = Some (Max (set (present s)))"
  using Max.set_eq_fold [of "hd (present s)" "tl (present s)"]
  by (cases "present s") (simp_all add: series_max_def)

lemma midpoint_bounds:
  fixes a b lo hi :: real
  assumes "lo \<le> a \<and> a \<le> hi" and "lo \<le> b \<and> b \<le> hi"
  shows "lo \<le> (a + b) / 2" and "(a + b) / 2 \<le> hi"
  using assms by auto

lemma median_bounds:
  assumes "present s \<noteq> []"
  shows "\<exists>m. median s = Some m \<and> Min (set (present s)) \<le> m \<and> m \<le> Max (set (present s))"
proof -
  define xs where "xs = sort (present s)"
  define n where "n = length xs"
  have n: "0 < n" using assms by (simp add: n_def xs_def)
  have xne: "xs \<noteq> []" using n by (auto simp: n_def)
  have bnd: "Min (set (present s)) \<le> xs ! k \<and> xs ! k \<le> Max (set (present s))" if "k < n" for k
  proof -
    have "xs ! k \<in> set (present s)"
      using that nth_mem [of k xs] by (simp add: n_def xs_def)
    then show ?thesis by simp
  qed
  show ?thesis
  proof (cases "odd n")
    case True
    have "n div 2 < n" using n by simp
    from bnd [OF this] True n xne show ?thesis
      by (simp add: median_def Let_def xs_def [symmetric] n_def [symmetric])
  next
    case False
    have a: "n div 2 < n" and b: "n div 2 - 1 < n" using n by simp_all
    have "median s = Some ((xs ! (n div 2 - 1) + xs ! (n div 2)) / 2)"
      using False n xne by (simp add: median_def Let_def xs_def [symmetric] n_def [symmetric])
    moreover have "Min (set (present s)) \<le> (xs ! (n div 2 - 1) + xs ! (n div 2)) / 2"
      using bnd [OF b] bnd [OF a] by (rule midpoint_bounds)
    moreover have "(xs ! (n div 2 - 1) + xs ! (n div 2)) / 2 \<le> Max (set (present s))"
      using bnd [OF b] bnd [OF a] by (rule midpoint_bounds)
    ultimately show ?thesis by blast
  qed
qed

lemma normalize_series_filled:
  assumes ne: "present (to_numeric P c) \<noteq> []" and med: "median (to_numeric P c) = Some m"
  defines "vals \<equiv> map (\<lambda>x. case x of None \<Rightarrow> m | Some y \<Rightarrow> y) (to_numeric P c)"
  shows "normalize_series P c =
           (if Max (set vals) = Min (set vals) then zeros (length c)
            else map (\<lambda>v. Some ((v - Min (set vals)) / (Max (set vals) - Min (set vals)))) vals)"
proof -
  let ?s = "to_numeric P c"
  have notall: "\<not> list_all (\<lambda>x. x = None) ?s" using ne by (simp add: present_Nil_iff)
  have pf: "present (fillna (Some m) ?s) = vals"
    by (simp add: fillna_Some present_map_Some vals_def)
  have "?s \<noteq> []" using ne by (auto simp: present_def)
  then have vne: "vals \<noteq> []" by (simp add: vals_def)
  have mn: "series_min (fillna (Some m) ?s) = Some (Min (set vals))"
    using series_min_Min [of "fillna (Some m) ?s"] vne by (simp add: pf)
  have mx: "series_max (fillna (Some m) ?s) = Some (Max (set vals))"
    using series_max_Max [of "fillna (Some m) ?s"] vne by (simp add: pf)
  have mp: "map (map_option f) (fillna (Some m) ?s) = map (\<lambda>v. Some (f v)) vals" for f :: "real \<Rightarrow> real"
    by (simp add: fillna_Some vals_def)
  show ?thesis
    unfolding normalize_series_def Let_def
    by (simp add: notall med mn mx mp length_to_numeric)
qed

lemma normalize_series_all_missing:
  "present (to_numeric P c) = [] \<Longrightarrow> normalize_series P c = zeros (length c)"
  by (simp add: normalize_series_def Let_def present_Nil_iff length_to_numeric)

lemma filled_set:
  "set (map (\<lambda>x. case x of None \<Rightarrow> m | Some y \<Rightarrow> y) s)
     = set (present s) \<union> (if None \<in> set s then {m} else {})"
  by (induction s) (auto simp: present_def split: option.splits)

lemma filled_Min_Max:
  assumes ne: "present s \<noteq> []" and lo: "Min (set (present s)) \<le> m" and hi: "m \<le> Max (set (present s))"
  defines "vals \<equiv> map (\<lambda>x. case x of None \<Rightarrow> m | Some y \<Rightarrow> y) s"
  shows "Min (set vals) = Min (set (present s))" and "Max (set vals) = Max (set (present s))"
proof -
  have fin: "finite (set (present s))" and ne': "set (present s) \<noteq> {}" using ne by simp_all
  show "Min (set vals) = Min (set (present s))"
  proof (cases "None \<in> set s")
    case True
    then have "set vals = insert m (set (present s))" unfolding vals_def filled_set by simp
    then show ?thesis using fin ne' lo by (simp add: min_absorb2)
  next
    case False
    then have "set vals = set (present s)" unfolding vals_def filled_set by simp
    then show ?thesis by simp
  qed
  show "Max (set vals) = Max (set (present s))"
  proof (cases "None \<in> set s")
    case True
    then have "set vals = insert m (set (present s))" unfolding vals_def filled_set by simp
    then show ?thesis using fin ne' hi by (simp add: max_absorb2)
  next
    case False
    then have "set vals = set (present s)" unfolding vals_def filled_set by simp
    then show ?thesis by simp
  qed
qed

lemma normalize_series_length: "length (normalize_series P c) = length c"
proof (cases "present (to_numeric P c) = []")
  case True
  then show ?thesis by (simp add: normalize_series_all_missing zeros_def)
next
  case False
  from median_bounds [OF False] obtain m where "median (to_numeric P c) = Some m" by blast
  from normalize_series_filled [OF False this] show ?thesis
    by (simp add: zeros_def length_to_numeric)
qed

lemma normalize_series_range:
  assumes "i < length c"
  shows "\<exists>v. normalize_series P c ! i = Some v \<and> 0 \<le> v \<and> v \<le> 1"
proof (cases "present (to_numeric P c) = []")
  case True
  then show ?thesis using assms by (simp add: normalize_series_all_missing zeros_def)
next
  case False
  from median_bounds [OF False] obtain m where med: "median (to_numeric P c) = Some m" by blast
  define vals where "vals = map (\<lambda>x. case x of None \<Rightarrow> m | Some y \<Rightarrow> y) (to_numeric P c)"
  have len: "length vals = length c" by (simp add: vals_def length_to_numeric)
  note eq = normalize_series_filled [OF False med, folded vals_def]
  show ?thesis
  proof (cases "Max (set vals) = Min (set vals)")
    case True
    then show ?thesis using assms eq by (simp add: zeros_def)
  next
    case ne: False
    have mem: "vals ! i \<in> set vals" using assms len by simp
    then have lo: "Min (set vals) \<le> vals ! i" and hi: "vals ! i \<le> Max (set vals)" by simp_all
    then have lt: "Min (set vals) < Max (set vals)" using ne by linarith
    have "normalize_series P c ! i = Some ((vals ! i - Min (set vals)) / (Max (set vals) - Min (set vals)))"
      using ne eq assms len by simp
    moreover have "0 \<le> (vals ! i - Min (set vals)) / (Max (set vals) - Min (set vals))"
      using lo lt by simp
    moreover have "(vals ! i - Min (set vals)) / (Max (set vals) - Min (set vals)) \<le> 1"
      using hi lt by simp
    ultimately show ?thesis by blast
  qed
qed

lemma Max_eq_Min_iff:
  fixes xs :: "real list"
  assumes "xs \<noteq> []"
  shows "Max (set xs) = Min (set xs) \<longleftrightarrow> (\<forall>x\<in>set xs. \<forall>y\<in>set xs. x = y)"
proof
  assume eq: "Max (set xs) = Min (set xs)"
  have "x = Min (set xs)" if "x \<in> set xs" for x
  proof -
    have "Min (set xs) \<le> x" and "x \<le> Max (set xs)" using that by simp_all
    then show ?thesis using eq by linarith
  qed
  then show "\<forall>x\<in>set xs. \<forall>y\<in>set xs. x = y" by metis
next
  assume c: "\<forall>x\<in>set xs. \<forall>y\<in>set xs. x = y"
  have "Max (set xs) \<in> set xs" and "Min (set xs) \<in> set xs"
    using assms by simp_all
  then show "Max (set xs) = Min (set xs)" using c by blast
qed

lemma normalize_series_extremes:
  assumes some: "\<exists>v. Some v \<in> set (to_numeric P c)"
    and nonconst: "\<exists>x\<in>set (s_filled P c). \<exists>y\<in>set (s_filled P c). x \<noteq> y"
    and i: "i < length c"
  shows "to_numeric P c ! i = Some (Min (set (present (to_numeric P c))))
           \<longrightarrow> normalize_series P c ! i = Some 0"
    and "to_numeric P c ! i = Some (Max (set (present (to_numeric P c))))
           \<longrightarrow> normalize_series P c ! i = Some 1"
proof -
  let ?s = "to_numeric P c"
  have ne: "present ?s \<noteq> []" using some by (auto simp: present_Nil_iff list_all_iff)
  from median_bounds [OF ne] obtain m where med: "median ?s = Some m"
    and lo: "Min (set (present ?s)) \<le> m" and hi: "m \<le> Max (set (present ?s))" by blast
  define vals where "vals = map (\<lambda>x. case x of None \<Rightarrow> m | Some y \<Rightarrow> y) ?s"
  have len: "length vals = length c" by (simp add: vals_def length_to_numeric)
  have vne: "vals \<noteq> []" using i len by auto
  have sf: "s_filled P c = map Some vals"
    by (simp add: s_filled_def med fillna_Some vals_def)
  have "\<not> (\<forall>x\<in>set vals. \<forall>y\<in>set vals. x = y)"
    using nonconst unfolding sf by auto
  then have ne2: "Max (set vals) \<noteq> Min (set vals)"
    using Max_eq_Min_iff [OF vne] by simp
  note eq = normalize_series_filled [OF ne med, folded vals_def]
  have at: "normalize_series P c ! i
              = Some ((vals ! i - Min (set vals)) / (Max (set vals) - Min (set vals)))"
    using ne2 eq i len by simp
  note mm = filled_Min_Max [OF ne lo hi, folded vals_def]
  show "?s ! i = Some (Min (set (present ?s))) \<longrightarrow> normalize_series P c ! i = Some 0"
  proof
    assume "?s ! i = Some (Min (set (present ?s)))"
    then have "vals ! i = Min (set (present ?s))"
      using i by (simp add: vals_def length_to_numeric)
    then have "vals ! i = Min (set vals)" using mm(1) by simp
    then show "normalize_series P c ! i = Some 0" using at by simp
  qed
  show "?s ! i = Some (Max (set (present ?s))) \<longrightarrow> normalize_series P c ! i = Some 1"
  proof
    assume "?s ! i = Some (Max (set (present ?s)))"
    then have "vals ! i = Max (set (present ?s))"
      using i by (simp add: vals_def length_to_numeric)
    then have "vals ! i = Max (set vals)" using mm(2) by simp
    then show "normalize_series P c ! i = Some 1" using at ne2 by simp
  qed
qed


lemmas series_defs =
  to_numeric_def present_def median_def fillna_def series_min_def series_max_def zeros_def
  normalize_series_def s_filled_def as_column_def series_of_def

section \<open>Attribute normalizer in binary64: overflow\<close>

lemma pow2_powr: "pow2 e = 2 powr real_of_int e"
  by (simp add: pow2_def powr_real_of_int inverse_eq_divide)

lemma round_double_eval:
  assumes "x \<noteq> 0" and "pow2 e \<le> \<bar>x\<bar>" and "\<bar>x\<bar> < pow2 (e + 1)"
  shows "round_double x =
           (let u = pow2 (max e (- 1022) - 52);
                r = real_of_int (py_round (x / u)) * u
            in if pow2 1024 \<le> \<bar>r\<bar> then (if 0 < x then PInf else NInf) else Fin r)"
proof -
  have "\<lfloor>log 2 \<bar>x\<bar>\<rfloor> = e"
    using assms by (subst floor_log_eq_powr_iff) (simp_all add: pow2_powr)
  then show ?thesis using assms(1) by (simp add: round_double_def Let_def)
qed

lemma round_double_0: "round_double 0 = Fin 0"
  by (simp add: round_double_def)

lemmas ieee_defs =
  to_numeric_ieee_def present_ieee_def median_ieee_def fillna_ieee_def series_min_ieee_def
  series_max_ieee_def normalize_series_ieee_def fsort_def fmin_def fmax_def fsub_def

text \<open>
  C2 (every entry of the normalized series is defined and lies in [0,1], the maximum
  being sent to 1): the docstring of \<open>normalize_series\<close> promises a result in [0,1], but
  on the column of the two finite doubles \<open>1e308\<close> and \<open>-1e308\<close> the difference
  \<open>mx - mn\<close> overflows to infinity, and the code returns NaN for the first row and 0 for
  the second.
\<close>

theorem normalize_series_overflow:
  "normalize_series_ieee P [FNum (Fin double_1e308), FNum (Fin (- double_1e308))]
     = [None, Some (Fin 0)]"
proof -
  have pos: "0 < double_1e308" by (simp add: double_1e308_def)
  have ov: "round_double (2 * double_1e308) = PInf"
    unfolding double_1e308_def
    by (subst round_double_eval [where e = 1024]) (simp_all add: pow2_def py_round_def Let_def)
  show ?thesis
    using pos by (simp add: ieee_defs Let_def round_double_0 ov)
qed

section \<open>Axis computer: the six axes\<close>

lemma to_numeric_as_column: "to_numeric P (as_column s) = s"
  by (induction s) (auto simp: to_numeric_def as_column_def split: option.splits)

lemma series_of_as_column: "series_of (as_column s) = s"
  by (induction s) (auto simp: series_of_def as_column_def split: option.splits)

lemma normalize_series_coerced:
  "normalize_series P (as_column (to_numeric P c)) = normalize_series P c"
  by (simp add: normalize_series_def to_numeric_as_column)

lemma fillna_no_None: "None \<notin> set s \<Longrightarrow> fillna v s = s"
  by (induction s) (auto simp: fillna_def split: option.splits)

lemma normalize_series_prefilled:
  "normalize_series P (as_column (fillna (median s) s)) = normalize_series P (as_column s)"
proof (cases "present s = []")
  case True
  then have "median s = None" by (simp add: median_def)
  then show ?thesis by (simp add: fillna_None)
next
  case ne: False
  from median_bounds [OF ne] obtain m where med: "median s = Some m" by blast
  define t where "t = fillna (Some m) s"
  have tn: "None \<notin> set t" by (auto simp: t_def fillna_Some)
  have "s \<noteq> []" using ne by (auto simp: present_def)
  then have "t \<noteq> []" by (simp add: t_def fillna_Some)
  then have pt: "present t \<noteq> []" using tn by (cases t) (auto simp: present_def)
  from median_bounds [OF pt] obtain m' where med': "median t = Some m'" by blast
  have ft: "fillna (Some m') t = t" using tn by (rule fillna_no_None)
  have len: "length t = length s" by (simp add: t_def fillna_Some)
  have nt: "\<not> list_all (\<lambda>x. x = None) t" using pt by (simp add: present_Nil_iff)
  have ns: "\<not> list_all (\<lambda>x. x = None) s" using ne by (simp add: present_Nil_iff)
  have A: "normalize_series P (as_column t)
             = (case series_min t of None \<Rightarrow> zeros (length s)
                | Some a \<Rightarrow>
                    (case series_max t of None \<Rightarrow> zeros (length s)
                     | Some b \<Rightarrow>
                         if b = a then zeros (length s)
                         else map (map_option (\<lambda>v. (v - a) / (b - a))) t))"
    by (simp add: normalize_series_def Let_def to_numeric_as_column nt med' ft len
        cong: option.case_cong if_cong)
  have B: "normalize_series P (as_column s)
             = (case series_min t of None \<Rightarrow> zeros (length s)
                | Some a \<Rightarrow>
                    (case series_max t of None \<Rightarrow> zeros (length s)
                     | Some b \<Rightarrow>
                         if b = a then zeros (length s)
                         else map (map_option (\<lambda>v. (v - a) / (b - a))) t))"
    by (simp add: normalize_series_def Let_def to_numeric_as_column ns med t_def [symmetric]
        cong: option.case_cong if_cong)
  show ?thesis unfolding med t_def [symmetric] A B ..
qed

lemma coerce_col_cols:
  "cols (coerce_col P a df) c
     = (if c = a then map_option (\<lambda>col. as_column (to_numeric P col)) (cols df c) else cols df c)"
  by (auto simp: coerce_col_def split: option.splits)

lemma coerce_col_nrows: "nrows (coerce_col P a df) = nrows df"
  by (simp add: coerce_col_def split: option.splits)

lemma coerced_twice:
  "map_option (\<lambda>col. as_column (to_numeric P col)) (map_option (\<lambda>col. as_column (to_numeric P col)) x)
     = map_option (\<lambda>col. as_column (to_numeric P col)) x"
  by (cases x) (simp_all add: to_numeric_as_column)

lemma fold_coerce_cols:
  "cols (fold (coerce_col P) names df) c
     = (if c \<in> set names then map_option (\<lambda>col. as_column (to_numeric P col)) (cols df c)
        else cols df c)"
  by (induction names arbitrary: df) (auto simp: coerce_col_cols coerced_twice)

lemma fold_coerce_nrows: "nrows (fold (coerce_col P) names df) = nrows df"
  by (induction names arbitrary: df) (auto simp: coerce_col_nrows)

lemma fold_coerce_None:
  "cols (fold (coerce_col P) names df) c = None \<longleftrightarrow> cols df c = None"
  by (simp add: fold_coerce_cols)

lemma fold_coerce_normalize:
  "cols df c = Some col \<Longrightarrow>
   normalize_series P (the (cols (fold (coerce_col P) names df) c)) = normalize_series P col"
  by (simp add: fold_coerce_cols normalize_series_coerced)

lemma mean_skipna_defined:
  assumes "None \<notin> set vs" and "vs \<noteq> []"
  shows "mean_skipna vs = Some (sum_list (map the vs) / real (length vs))"
proof -
  have "\<forall>x\<in>set vs. x \<noteq> None" using assms(1) by metis
  then have "filter (\<lambda>x. x \<noteq> None) vs = vs" by (simp only: filter_True)
  then have "present vs = map the vs" by (simp add: present_def)
  then show ?thesis using assms(2) by (simp add: mean_skipna_def)
qed

lemma mean_axis_spec:
  assumes wf: "wf_table df"
  shows "as_column (mean_axis P (fold (coerce_col P) ns df) names) = axis_mean P df names"
proof -
  let ?df1 = "fold (coerce_col P) ns df"
  let ?cs = "filter (\<lambda>c. c \<in> dom (cols df)) names"
  have norm0: "map (\<lambda>c. normalize_series P (the (cols ?df1 c))) ?cs
                = map (\<lambda>c. normalize_series P (the (cols df c))) ?cs"
    by (rule map_cong) (auto simp: fold_coerce_normalize)
  have cs: "filter (\<lambda>c. cols ?df1 c \<noteq> None) names = ?cs"
    by (rule filter_cong) (auto simp: fold_coerce_None)
  have unf: "mean_axis P ?df1 names
               = (if ?cs = [] then zeros (nrows df)
                  else row_mean (nrows df) (map (\<lambda>c. normalize_series P (the (cols df c))) ?cs))"
    unfolding mean_axis_def Let_def cs norm0 fold_coerce_nrows ..

  show ?thesis
  proof (cases "?cs = []")
    case True
    then show ?thesis
      unfolding unf by (simp add: axis_mean_def zeros_def as_column_def map_replicate_const)
  next
    case False
    have row: "mean_skipna (map (\<lambda>c. normalize_series P (the (cols df c)) ! i) ?cs)
                 = Some (sum_list (map (\<lambda>c. the (normalize_series P (the (cols df c)) ! i)) ?cs)
                         / real (length ?cs))"
      if i: "i < nrows df" for i
    proof -
      let ?vs = "map (\<lambda>c. normalize_series P (the (cols df c)) ! i) ?cs"
      have "None \<notin> set ?vs"
      proof
        assume "None \<in> set ?vs"
        then obtain c where c: "c \<in> set ?cs"
          and n: "None = normalize_series P (the (cols df c)) ! i"
          unfolding set_map by blast
        from c obtain col where col: "cols df c = Some col" by auto
        with wf have "length col = nrows df" by (simp add: wf_table_def)
        with normalize_series_range [of i col P] i col n show False by auto
      qed
      moreover have "?vs \<noteq> []" using False by simp
      ultimately have "mean_skipna ?vs = Some (sum_list (map the ?vs) / real (length ?vs))"
        by (rule mean_skipna_defined)
      then show ?thesis by (simp add: comp_def)
    qed
    show ?thesis
      unfolding unf using False
      by (simp add: axis_mean_def row_mean_def as_column_def row Let_def comp_def)
  qed
qed

lemma inverted_axis_spec:
  assumes wf: "wf_table df" and mem: "c \<in> set ns"
  shows "as_column (inverted_axis P (fold (coerce_col P) ns df) c) = axis_inverted P df c"
proof (cases "cols df c")
  case None
  then show ?thesis
    by (simp add: inverted_axis_def axis_inverted_def fold_coerce_cols fold_coerce_nrows
        zeros_def as_column_def)
next
  case (Some col)
  have len: "length col = nrows df" using wf Some by (simp add: wf_table_def)
  define N where "N = normalize_series P col"
  have lenN: "length N = nrows df" by (simp add: N_def normalize_series_length len)
  have dfd: "\<exists>v. N ! i = Some v" if "i < nrows df" for i
    using normalize_series_range [of i col P] that len by (auto simp: N_def)
  have inv: "as_column (map (map_option (\<lambda>v. 1 - v)) N) = map (\<lambda>i. Num (1 - the (N ! i))) [0..<nrows df]"
  proof (rule nth_equalityI)
    show "length (as_column (map (map_option (\<lambda>v. 1 - v)) N))
            = length (map (\<lambda>i. Num (1 - the (N ! i))) [0..<nrows df])"
      by (simp add: as_column_def lenN)
  next
    fix i assume "i < length (as_column (map (map_option (\<lambda>v. 1 - v)) N))"
    then have i: "i < nrows df" by (simp add: as_column_def lenN)
    from dfd [OF i] obtain v where "N ! i = Some v" by blast
    then show "as_column (map (map_option (\<lambda>v. 1 - v)) N) ! i
                 = map (\<lambda>i. Num (1 - the (N ! i))) [0..<nrows df] ! i"
      using i by (simp add: as_column_def lenN)
  qed
  have c1: "cols (fold (coerce_col P) ns df) c = Some (as_column (to_numeric P col))"
    using mem by (simp add: fold_coerce_cols Some)
  have "normalize_series P (as_column (fillna (median (to_numeric P col)) (to_numeric P col))) = N"
    by (simp add: normalize_series_prefilled normalize_series_coerced N_def)
  then show ?thesis
    by (simp add: inverted_axis_def c1 series_of_as_column axis_inverted_def Some inv
        N_def [symmetric])
qed

lemma compute_axes_nrows: "nrows (compute_axes P df) = nrows df"
  by (simp add: compute_axes_def Let_def fold_coerce_nrows)


lemma compute_axes_other:
  "c \<notin> set base_axes \<Longrightarrow> c \<notin> set numeric_inputs \<Longrightarrow> cols (compute_axes P df) c = cols df c"
  by (simp add: compute_axes_def Let_def base_axes_def fold_coerce_cols)

lemma compute_axes_mean:
  assumes wf: "wf_table df" and ax: "(axis, names) \<in> set mean_axes"
  shows "cols (compute_axes P df) axis = Some (axis_mean P df names)"
  using ax mean_axis_spec [OF wf, of P numeric_inputs]
  by (auto simp: mean_axes_def compute_axes_def Let_def)

lemma compute_axes_inverted:
  assumes wf: "wf_table df" and ax: "(axis, c) \<in> set inverted_axes"
  shows "cols (compute_axes P df) axis = Some (axis_inverted P df c)"
proof -
  have "c \<in> set numeric_inputs" using ax by (auto simp: inverted_axes_def numeric_inputs_def)
  from inverted_axis_spec [OF wf this, of P] ax show ?thesis
    by (auto simp: inverted_axes_def compute_axes_def Let_def)
qed

lemmas axes_defs =
  compute_axes_def coerce_col_def mean_axis_def inverted_axis_def row_mean_def mean_skipna_def
  numeric_inputs_def perf_inputs_def eco_inputs_def safety_inputs_def comfort_inputs_def

lemma wf_example_cars: "wf_table example_cars"
  by (auto simp: wf_table_def example_cars_def split: if_splits)





section \<open>Axis computer: degenerate columns\<close>









section \<open>Ranking engine: frames and scores\<close>

lemmas rank_defs =
  scored_def recommend_def with_axes_def with_prefs_def base_axes_def truthy_def
  extra_axis_names_def weight_keys_def weight_vector_def fillna0_def max_budget_def
  sort_order_def head_def take_rows_def add_fuel_pref_def add_body_pref_def apply_budget_def

lemma eval_helpers:
  "[0..<1] = [0]" "[0..<2] = [0, 1]" "[0..<3] = [0, 1, 2]"
  "replicate 1 x = [x]" "replicate 2 x = [x, x]" "replicate 3 x = [x, x, x]"
  by (simp_all add: upt_rec numeral_2_eq_2 numeral_3_eq_3)


lemma length_as_column: "length (as_column s) = length s"
  by (simp add: as_column_def)

lemma length_axis_mean: "length (axis_mean P df names) = nrows df"
  by (simp add: axis_mean_def Let_def)

lemma length_axis_inverted: "length (axis_inverted P df c) = nrows df"
  by (simp add: axis_inverted_def split: option.splits)

lemma compute_axes_cols_other:
  "c \<notin> set base_axes \<Longrightarrow>
   cols (compute_axes P df) c = cols (fold (coerce_col P) numeric_inputs df) c"
  by (simp add: compute_axes_def Let_def base_axes_def)

lemma base_axes_fst:
  "set base_axes = fst ` set mean_axes \<union> fst ` set inverted_axes"
  unfolding base_axes_def mean_axes_def inverted_axes_def by (simp add: insert_commute)

lemma base_axes_cases:
  assumes "c \<in> set base_axes"
  shows "(\<exists>names. (c, names) \<in> set mean_axes) \<or> (\<exists>a. (c, a) \<in> set inverted_axes)"
proof -
  from assms have "c \<in> fst ` set mean_axes \<or> c \<in> fst ` set inverted_axes"
    unfolding base_axes_fst by blast
  then show ?thesis by force
qed

lemma wf_compute_axes:
  assumes wf: "wf_table df"
  shows "wf_table (compute_axes P df)"
  unfolding wf_table_def
proof (intro allI impI)
  fix c col
  assume col: "cols (compute_axes P df) c = Some col"
  show "length col = nrows (compute_axes P df)"
  proof (cases "c \<in> set base_axes")
    case True
    from base_axes_cases [OF this] show ?thesis
    proof
      assume "\<exists>names. (c, names) \<in> set mean_axes"
      then obtain names where "(c, names) \<in> set mean_axes" by blast
      from compute_axes_mean [OF wf this, of P] col show ?thesis
        by (auto simp: length_axis_mean compute_axes_nrows)
    next
      assume "\<exists>a. (c, a) \<in> set inverted_axes"
      then obtain a where "(c, a) \<in> set inverted_axes" by blast
      from compute_axes_inverted [OF wf this, of P] col show ?thesis
        by (auto simp: length_axis_inverted compute_axes_nrows)
    qed
  next
    case False
    with col have "cols (fold (coerce_col P) numeric_inputs df) c = Some col"
      by (simp add: compute_axes_cols_other)
    then show ?thesis using wf
      by (auto simp: fold_coerce_cols compute_axes_nrows wf_table_def length_as_column
          length_to_numeric split: if_splits)
  qed
qed

lemma wf_with_axes: "wf_table df \<Longrightarrow> wf_table (with_axes P df)"
  by (simp add: with_axes_def wf_compute_axes)

lemma nrows_with_axes: "nrows (with_axes P df) = nrows df"
  by (simp add: with_axes_def compute_axes_nrows)

lemma wf_add_fuel_pref: "wf_table D \<Longrightarrow> wf_table (add_fuel_pref S sel D)"
  by (auto simp: wf_table_def add_fuel_pref_def split: option.splits if_splits)

lemma wf_add_body_pref: "wf_table D \<Longrightarrow> wf_table (add_body_pref S sel D)"
  by (auto simp: wf_table_def add_body_pref_def Let_def split: option.splits if_splits)

lemma nrows_add_fuel_pref: "nrows (add_fuel_pref S sel D) = nrows D"
  by (simp add: add_fuel_pref_def)

lemma nrows_add_body_pref: "nrows (add_body_pref S sel D) = nrows D"
  by (simp add: add_body_pref_def Let_def split: option.splits)

lemma wf_with_prefs: "wf_table D \<Longrightarrow> wf_table (with_prefs S sf sb self selb D)"
  by (simp add: with_prefs_def Let_def wf_add_fuel_pref wf_add_body_pref)

lemma nrows_with_prefs: "nrows (with_prefs S sf sb self selb D) = nrows D"
  by (simp add: with_prefs_def Let_def nrows_add_fuel_pref nrows_add_body_pref)

lemma with_prefs_price:
  "cols (with_prefs S sf sb self selb D) ''price_inr'' = cols D ''price_inr''"
  by (simp add: with_prefs_def Let_def add_fuel_pref_def add_body_pref_def split: option.splits)

lemma fillna0_length: "fillna0 c = Inr vs \<Longrightarrow> length vs = length c"
  by (auto simp: fillna0_def split: if_splits)

lemma add_axes_length:
  assumes "wf_table D" and "length acc = nrows D" and "add_axes D ws acc = Inr fs"
  shows "length fs = nrows D"
  using assms
proof (induction ws arbitrary: acc)
  case Nil
  then show ?case by simp
next
  case (Cons a ws)
  obtain wi col where a: "a = (wi, col)" by (cases a)
  from Cons.prems(3) obtain c vs where c: "cols D col = Some c" and vs: "fillna0 c = Inr vs"
    and rest: "add_axes D ws (map (\<lambda>(x, v). x + wi * v) (zip acc vs)) = Inr fs"
    by (auto simp: a split: option.splits sum.splits)
  have "length c = nrows D" using Cons.prems(1) c by (simp add: wf_table_def)
  then have "length (map (\<lambda>(x, v). x + wi * v) (zip acc vs)) = nrows D"
    using fillna0_length [OF vs] Cons.prems(2) by simp
  from Cons.IH [OF Cons.prems(1) this rest] show ?case .
qed

lemma budget_penalty_length: "budget_penalty b pc = Inr pen \<Longrightarrow> length pen = length pc"
  by (induction pc arbitrary: pen) (auto split: cell.splits if_splits sum.splits)

lemma apply_budget_shape:
  assumes wf: "wf_table D" and l: "length fs = nrows D"
    and fsc: "cols D ''final_score'' = Some (map Num fs)"
    and ab: "apply_budget filters D fs = Inr (D', fs')"
  shows "length fs' = nrows D \<and> cols D' ''final_score'' = Some (map Num fs') \<and> nrows D' = nrows D"
proof (cases "max_budget filters")
  case None
  with ab have "D' = D" and "fs' = fs" by (simp_all add: apply_budget_def)
  with l fsc show ?thesis by simp
next
  case (Some b)
  from ab Some obtain pc where pc: "cols D ''price_inr'' = Some pc"
    by (cases "cols D ''price_inr''") (simp_all add: apply_budget_def)
  from ab Some pc obtain pen where pen: "budget_penalty b pc = Inr pen"
    by (cases "budget_penalty b pc") (simp_all add: apply_budget_def)
  have "apply_budget filters D fs
          = Inr (D\<lparr>cols := (cols D)(''budget_penalty'' \<mapsto> map Num pen,
                    ''final_score'' \<mapsto> map Num (map (\<lambda>(a, p). a - 0.5 * p) (zip fs pen)))\<rparr>,
                 map (\<lambda>(a, p). a - 0.5 * p) (zip fs pen))"
    by (simp add: apply_budget_def Let_def Some pc pen)
  with ab have D': "D' = D\<lparr>cols := (cols D)(''budget_penalty'' \<mapsto> map Num pen,
        ''final_score'' \<mapsto> map Num fs')\<rparr>"
    and fs': "fs' = map (\<lambda>(a, p). a - 0.5 * p) (zip fs pen)"
    by auto
  have "length pc = nrows D" using wf pc by (simp add: wf_table_def)
  with budget_penalty_length [OF pen] l have "length fs' = nrows D" by (simp add: fs')
  then show ?thesis by (simp add: D')
qed

lemma scored_unfold:
  "scored P S df weights filters sf sb self selb =
     (case add_axes (with_prefs S sf sb self selb (with_axes P df))
             (zip (weight_vector weights (weight_keys (base_axes @ extra_axis_names sf sb self selb)))
                  (base_axes @ extra_axis_names sf sb self selb))
             (replicate (nrows df) 0) of
        Inl e \<Rightarrow> Inl e
      | Inr fs \<Rightarrow>
          apply_budget filters
            ((with_prefs S sf sb self selb (with_axes P df))
               \<lparr>cols := (cols (with_prefs S sf sb self selb (with_axes P df)))
                          (''final_score'' \<mapsto> map Num fs)\<rparr>) fs)"
  by (simp add: scored_def Let_def nrows_with_prefs nrows_with_axes)

lemma wf_set_col:
  "wf_table D \<Longrightarrow> length col = nrows D \<Longrightarrow> wf_table (D\<lparr>cols := (cols D)(c \<mapsto> col)\<rparr>)"
  by (simp add: wf_table_def)

lemma scored_shape:
  assumes wf: "wf_table df"
    and sc: "scored P S df weights filters sf sb self selb = Inr (D, fs)"
  shows "length fs = nrows df \<and> cols D ''final_score'' = Some (map Num fs) \<and> nrows D = nrows df"
proof -
  define D2 where "D2 = with_prefs S sf sb self selb (with_axes P df)"
  define ws where "ws = zip (weight_vector weights (weight_keys (base_axes @ extra_axis_names sf sb self selb)))
                            (base_axes @ extra_axis_names sf sb self selb)"
  have wf2: "wf_table D2" by (simp add: D2_def wf_with_prefs wf_with_axes wf)
  have n2: "nrows D2 = nrows df" by (simp add: D2_def nrows_with_prefs nrows_with_axes)
  note unf = sc [unfolded scored_unfold, folded D2_def ws_def]
  from unf obtain fs0 where ax: "add_axes D2 ws (replicate (nrows df) 0) = Inr fs0"
    by (cases "add_axes D2 ws (replicate (nrows df) 0)") simp_all
  from unf ax have ab: "apply_budget filters (D2\<lparr>cols := (cols D2)(''final_score'' \<mapsto> map Num fs0)\<rparr>) fs0
                          = Inr (D, fs)" by simp
  have l0: "length fs0 = nrows D2"
    using add_axes_length [OF wf2 _ ax] n2 by simp
  have wf3: "wf_table (D2\<lparr>cols := (cols D2)(''final_score'' \<mapsto> map Num fs0)\<rparr>)"
    using wf2 l0 by (simp add: wf_set_col)
  from apply_budget_shape [OF wf3 _ _ ab] l0 n2 show ?thesis by simp
qed

lemma scored_without_budget:
  assumes "scored P S df weights None sf sb self selb = Inr (D, fs)"
  shows "add_axes (with_prefs S sf sb self selb (with_axes P df))
             (zip (weight_vector weights (weight_keys (base_axes @ extra_axis_names sf sb self selb)))
                  (base_axes @ extra_axis_names sf sb self selb))
             (replicate (nrows df) 0) = Inr fs
       \<and> D = (with_prefs S sf sb self selb (with_axes P df))
               \<lparr>cols := (cols (with_prefs S sf sb self selb (with_axes P df)))
                          (''final_score'' \<mapsto> map Num fs)\<rparr>"
proof -
  define D2 where "D2 = with_prefs S sf sb self selb (with_axes P df)"
  define ws where "ws = zip (weight_vector weights (weight_keys (base_axes @ extra_axis_names sf sb self selb)))
                            (base_axes @ extra_axis_names sf sb self selb)"
  note unf = assms [unfolded scored_unfold, folded D2_def ws_def]
  from unf obtain fs0 where ax: "add_axes D2 ws (replicate (nrows df) 0) = Inr fs0"
    by (cases "add_axes D2 ws (replicate (nrows df) 0)") simp_all
  from unf ax have "fs0 = fs" and "D = D2\<lparr>cols := (cols D2)(''final_score'' \<mapsto> map Num fs)\<rparr>"
    by (auto simp: apply_budget_def max_budget_def)
  with ax show ?thesis unfolding D2_def ws_def by simp
qed

text \<open>
  C7 (the engine never raises for data-quality issues; in particular ranking a catalog
  without a price column under a supplied maximum budget returns a result): the code
  reads \<open>D["price_inr"]\<close> without the presence test that \<open>compute_axes\<close> makes for the same
  column, so that such a call ends in a \<open>KeyError\<close>.
\<close>

theorem recommend_no_price_KeyError:
  "recommend example_parse example_show example_no_price Map.empty 20
     (Some [''max_budget'' \<mapsto> 1000000]) False False None None 0 0 = Inl KeyError"
  by (simp add: rank_defs axes_defs example_no_price_def series_defs eval_helpers Let_def)

section \<open>Ranking engine: length and order of the result\<close>

lemma length_head:
  "length (head n xs)
     = (if 0 \<le> n then min (nat n) (length xs) else nat (int (length xs) + n))"
  by (auto simp: head_def)

lemma head_take: "\<exists>k. head n xs = take k xs"
  by (auto simp: head_def)

lemma sort_order_set: "set (sort_order fs) = {0..<length fs}"
  by (simp add: sort_order_def)

lemma sort_order_length: "length (sort_order fs) = length fs"
  by (simp add: sort_order_def)

lemma sort_order_sorted: "sorted (map (\<lambda>i. - (fs ! i)) (sort_order fs))"
  by (simp add: sort_order_def)

lemma recommend_Inr:
  assumes "recommend P S df weights top_n filters sf sb self selb a b = Inr R"
  shows "\<exists>D fs. scored P S df weights filters sf sb self selb = Inr (D, fs)
           \<and> R = take_rows (head top_n (sort_order fs)) D"
proof (cases "scored P S df weights filters sf sb self selb")
  case (Inl e)
  with assms show ?thesis by (simp add: recommend_def)
next
  case (Inr r)
  obtain D fs where "r = (D, fs)" by (cases r)
  with Inr assms show ?thesis by (auto simp: recommend_def)
qed

text \<open>
  C3, as stated (the result has \<open>min(top_n, number of records)\<close> rows and is empty for
  every \<open>top_n \<le> 0\<close>, negative values included), does not hold: \<open>head\<close> with a negative
  count keeps all rows but the last ones, so \<open>top_n = -1\<close> on three records returns two.
\<close>

theorem negative_top_n_counterexample:
  "map_sum id nrows (recommend example_parse example_show example_cars Map.empty (- 1)
     None False False None None 0 0) = Inr 2"
  by (simp add: rank_defs axes_defs example_cars_def series_defs example_parse_def budget_defs eval_helpers Let_def)

lemma numeric_col_iff: "numeric_col col \<longleftrightarrow> (\<forall>c\<in>set col. \<forall>t. c \<noteq> Str t)"
  by (auto simp: numeric_col_def list_ex_iff split: cell.splits)

lemma numeric_as_column: "numeric_col (as_column s)"
  by (auto simp: numeric_col_iff as_column_def split: option.splits)

lemma fillna0_numeric: "numeric_col col \<Longrightarrow> \<exists>vs. fillna0 col = Inr vs"
  by (simp add: fillna0_def numeric_col_def)

lemma add_axes_returns:
  assumes "\<forall>c\<in>snd ` set ws. \<exists>col. cols D c = Some col \<and> numeric_col col"
  shows "\<exists>fs. add_axes D ws acc = Inr fs"
  using assms
proof (induction ws arbitrary: acc)
  case Nil
  then show ?case by simp
next
  case (Cons a ws)
  obtain wi c where a: "a = (wi, c)" by (cases a)
  from Cons.prems obtain col where col: "cols D c = Some col" and num: "numeric_col col"
    by (auto simp: a)
  from fillna0_numeric [OF num] obtain vs where vs: "fillna0 col = Inr vs" by blast
  from Cons.prems have "\<forall>c\<in>snd ` set ws. \<exists>col. cols D c = Some col \<and> numeric_col col"
    by simp
  from Cons.IH [OF this] show ?case by (simp add: a col vs)
qed

lemma compute_axes_axis_cols:
  "\<exists>s. cols (compute_axes P df) ''axis_performance'' = Some (as_column s)"
  "\<exists>s. cols (compute_axes P df) ''axis_economy'' = Some (as_column s)"
  "\<exists>s. cols (compute_axes P df) ''axis_safety'' = Some (as_column s)"
  "\<exists>s. cols (compute_axes P df) ''axis_comfort'' = Some (as_column s)"
  "\<exists>s. cols (compute_axes P df) ''axis_ownership'' = Some (as_column s)"
  "\<exists>s. cols (compute_axes P df) ''axis_price'' = Some (as_column s)"
  by (simp_all add: compute_axes_def Let_def) blast+

lemma compute_axes_numeric:
  assumes "ax \<in> set base_axes"
  shows "\<exists>s. cols (compute_axes P df) ax = Some (as_column s)"
proof -
  from assms have "ax = ''axis_performance'' \<or> ax = ''axis_economy'' \<or> ax = ''axis_safety''
      \<or> ax = ''axis_comfort'' \<or> ax = ''axis_ownership'' \<or> ax = ''axis_price''"
    by (simp add: base_axes_def)
  then show ?thesis
    using compute_axes_axis_cols [of P df] by (elim disjE) (simp_all only:)
qed

lemma with_axes_numeric:
  assumes H: "\<forall>ax\<in>set base_axes. \<forall>col. cols df ax = Some col \<longrightarrow> numeric_col col"
    and ax: "ax \<in> set base_axes"
  shows "\<exists>col. cols (with_axes P df) ax = Some col \<and> numeric_col col"
proof (cases "list_all (\<lambda>ax. cols df ax \<noteq> None) base_axes")
  case True
  then have "cols df ax \<noteq> None" using ax by (simp add: list_all_iff)
  then obtain col where "cols df ax = Some col" by blast
  with H ax True show ?thesis by (auto simp: with_axes_def)
next
  case False
  from compute_axes_numeric [OF ax, of P df] obtain s
    where "cols (compute_axes P df) ax = Some (as_column s)" by blast
  with False show ?thesis by (simp add: with_axes_def numeric_as_column)
qed

lemma add_fuel_pref_numeric:
  "\<exists>col. cols (add_fuel_pref S sel D) ''axis_fuel_pref'' = Some col \<and> numeric_col col"
  by (cases "cols D ''fuel_category''") (auto simp: add_fuel_pref_def numeric_col_iff)

lemma add_body_pref_numeric:
  "\<exists>col. cols (add_body_pref S sel D) ''axis_body_pref'' = Some col \<and> numeric_col col"
  by (cases "cols D ''body_type''"; cases "cols D ''original_body_type''")
     (auto simp: add_body_pref_def Let_def numeric_col_iff)

lemma add_fuel_pref_other:
  "c \<noteq> ''axis_fuel_pref'' \<Longrightarrow> cols (add_fuel_pref S sel D) c = cols D c"
  by (simp add: add_fuel_pref_def)

lemma add_body_pref_other:
  "c \<noteq> ''axis_body_pref'' \<Longrightarrow> c \<noteq> ''body_clean'' \<Longrightarrow> cols (add_body_pref S sel D) c = cols D c"
  by (simp add: add_body_pref_def Let_def split: option.splits)

lemma base_axes_not_pref:
  assumes "ax \<in> set base_axes"
  shows "ax \<noteq> ''axis_fuel_pref''" and "ax \<noteq> ''axis_body_pref''" and "ax \<noteq> ''body_clean''"
  using assms unfolding base_axes_def by auto

lemma with_prefs_numeric:
  assumes H: "\<forall>ax\<in>set base_axes. \<exists>col. cols D ax = Some col \<and> numeric_col col"
    and ax: "ax \<in> set (base_axes @ extra_axis_names sf sb self selb)"
  shows "\<exists>col. cols (with_prefs S sf sb self selb D) ax = Some col \<and> numeric_col col"
proof (cases "ax \<in> set base_axes")
  case True
  note np = base_axes_not_pref [OF True]
  have "cols (with_prefs S sf sb self selb D) ax = cols D ax"
    using np by (simp add: with_prefs_def Let_def add_fuel_pref_other add_body_pref_other)
  with H True show ?thesis by simp
next
  case False
  with ax have "ax \<in> set (extra_axis_names sf sb self selb)" by simp
  then consider (fuel) "ax = ''axis_fuel_pref''" "sf \<and> truthy self"
    | (body) "ax = ''axis_body_pref''" "sb \<and> truthy selb"
    by (auto simp: extra_axis_names_def split: if_splits)
  then show ?thesis
  proof cases
    case fuel
    then show ?thesis
      using add_fuel_pref_numeric [of S "the self" D] add_body_pref_numeric
      by (simp add: with_prefs_def Let_def add_body_pref_other)
  next
    case body
    then show ?thesis
      using add_body_pref_numeric by (simp add: with_prefs_def Let_def)
  qed
qed

lemma scored_returns:
  assumes H: "\<forall>ax\<in>set base_axes. \<forall>col. cols df ax = Some col \<longrightarrow> numeric_col col"
    and nb: "max_budget filters = None"
  shows "\<exists>D fs. scored P S df weights filters sf sb self selb = Inr (D, fs)"
proof -
  define D2 where "D2 = with_prefs S sf sb self selb (with_axes P df)"
  define names where "names = base_axes @ extra_axis_names sf sb self selb"
  define ws where "ws = zip (weight_vector weights (weight_keys names)) names"
  have H1: "\<forall>ax\<in>set base_axes. \<exists>col. cols (with_axes P df) ax = Some col \<and> numeric_col col"
    using with_axes_numeric [OF H] by blast
  have "\<forall>c\<in>set names. \<exists>col. cols D2 c = Some col \<and> numeric_col col"
    unfolding D2_def names_def using with_prefs_numeric [OF H1] by blast
  moreover have "snd ` set ws \<subseteq> set names"
    unfolding ws_def by (auto dest: set_zip_rightD)
  ultimately have "\<forall>c\<in>snd ` set ws. \<exists>col. cols D2 c = Some col \<and> numeric_col col" by blast
  from add_axes_returns [OF this] obtain fs
    where "add_axes D2 ws (replicate (nrows df) 0) = Inr fs" by blast
  then show ?thesis
    unfolding scored_unfold D2_def [symmetric] names_def [symmetric] ws_def [symmetric]
    by (simp add: apply_budget_def nb)
qed

lemma recommend_returns:
  assumes "\<forall>ax\<in>set base_axes. \<forall>col. cols df ax = Some col \<longrightarrow> numeric_col col"
    and "max_budget filters = None"
  shows "\<exists>R. recommend P S df weights top_n filters sf sb self selb a b = Inr R"
proof -
  from scored_returns [OF assms, of P S weights sf sb self selb] obtain D fs
    where "scored P S df weights filters sf sb self selb = Inr (D, fs)" by blast
  then show ?thesis by (simp add: recommend_def)
qed

lemma recommend_shape:
  assumes wf: "wf_table df"
    and rec: "recommend P S df weights top_n filters sf sb self selb a b = Inr R"
  shows "nrows R = (if 0 \<le> top_n then min (nat top_n) (nrows df)
                    else nat (int (nrows df) + top_n))
       \<and> (\<exists>vs. cols R ''final_score'' = Some (map Num vs) \<and> length vs = nrows R
                \<and> sorted_wrt (\<lambda>x y. y \<le> x) vs)"
proof -
  from recommend_Inr [OF rec] obtain D fs
    where sc: "scored P S df weights filters sf sb self selb = Inr (D, fs)"
      and R: "R = take_rows (head top_n (sort_order fs)) D" by blast
  from scored_shape [OF wf sc] have len: "length fs = nrows df"
    and col: "cols D ''final_score'' = Some (map Num fs)" by simp_all
  define idx where "idx = head top_n (sort_order fs)"
  obtain k where k: "idx = take k (sort_order fs)" using head_take idx_def by metis
  have sub: "set idx \<subseteq> {0..<length fs}"
    unfolding k using set_take_subset [of k "sort_order fs"] by (simp add: sort_order_set)
  have n: "nrows R = length idx" by (simp add: R take_rows_def idx_def)
  have n': "length idx = (if 0 \<le> top_n then min (nat top_n) (nrows df)
                           else nat (int (nrows df) + top_n))"
    by (simp add: idx_def length_head sort_order_length len)
  have "map ((!) (map Num fs)) idx = map Num (map ((!) fs) idx)"
    using sub by (auto simp: subset_iff)
  then have c: "cols R ''final_score'' = Some (map Num (map ((!) fs) idx))"
    by (simp add: R take_rows_def col idx_def [symmetric])
  have "sorted (take k (map (\<lambda>i. - (fs ! i)) (sort_order fs)))"
    using sort_order_sorted [of fs] by (rule sorted_wrt_take)
  then have "sorted (map (\<lambda>i. - (fs ! i)) idx)"
    by (simp add: k take_map)
  then have s: "sorted_wrt (\<lambda>x y. y \<le> x) (map ((!) fs) idx)"
    by (simp add: sorted_wrt_map)
  have "length (map ((!) fs) idx) = nrows R" by (simp add: n)
  with c s n n' show ?thesis by metis
qed

text \<open>
  C3, amended: whenever the ranking of a well-formed catalog returns, the result is
  ordered non-increasing by \<open>final_score\<close>; for \<open>top_n \<ge> 0\<close> it has
  \<open>min(top_n, number of records)\<close> rows (none for \<open>top_n = 0\<close>), and for a negative
  \<open>top_n\<close> it has the number of records plus \<open>top_n\<close> rows, or none when that is negative.
  The ranking does return when no budget penalty applies and the axis columns that the
  catalog brings hold no text.
\<close>

theorem recommend_length_sorted:
  assumes wf: "wf_table df"
  shows "(\<forall>R. recommend P S df weights top_n filters sf sb self selb a b = Inr R \<longrightarrow>
            nrows R = (if 0 \<le> top_n then min (nat top_n) (nrows df)
                       else nat (int (nrows df) + top_n))
            \<and> (\<exists>vs. cols R ''final_score'' = Some (map Num vs) \<and> length vs = nrows R
                     \<and> sorted_wrt (\<lambda>x y. y \<le> x) vs))
       \<and> ((\<forall>ax\<in>set base_axes. \<forall>col. cols df ax = Some col \<longrightarrow> numeric_col col)
            \<and> max_budget filters = None \<longrightarrow>
          (\<exists>R. recommend P S df weights top_n filters sf sb self selb a b = Inr R))"
  using recommend_shape [OF wf, of P S weights top_n filters sf sb self selb a b]
    recommend_returns [of df filters P S weights top_n sf sb self selb a b]
  by blast

theorem recommend_length_sorted_witness:
  "map_sum id nrows (recommend example_parse example_show example_cars Map.empty 2
     None False False None None 0 0) = Inr 2"
proof -
  have ax: "\<forall>ax\<in>set base_axes. \<forall>col. cols example_cars ax = Some col \<longrightarrow> numeric_col col"
    by (simp add: base_axes_def example_cars_def)
  have nb: "max_budget None = None" by (simp add: max_budget_def)
  note spec = recommend_length_sorted [OF wf_example_cars, of example_parse example_show
      Map.empty 2 None False False None None 0 0]
  from spec ax nb obtain R where R: "recommend example_parse example_show example_cars Map.empty 2
     None False False None None 0 0 = Inr R" by blast
  with spec have "nrows R = (if 0 \<le> (2::int) then min (nat 2) (nrows example_cars)
                             else nat (int (nrows example_cars) + 2))" by blast
  then have "nrows R = 2" by (simp add: example_cars_def)
  then show ?thesis by (simp add: R)
qed

section \<open>Ranking engine: weights\<close>


lemma sum_list_const: "sum_list (map (\<lambda>_. c) xs) = real (length xs) * (c::real)"
  by (induction xs) (simp_all add: algebra_simps)

lemma weight_vector_zero:
  assumes "\<forall>k\<in>set keys. weights k = None \<or> weights k = Some 0"
  shows "weight_vector weights keys = map (\<lambda>_. 1 / real (length keys)) keys"
proof -
  have w: "map (\<lambda>k. case weights k of None \<Rightarrow> 0 | Some v \<Rightarrow> v) keys = map (\<lambda>_. 0::real) keys"
    by (rule map_cong) (use assms in \<open>auto split: option.splits\<close>)
  show ?thesis
    unfolding weight_vector_def Let_def w by (simp add: sum_list_const comp_def)
qed


lemma sum_list_divide: "sum_list (map (\<lambda>x. x / s) xs) = sum_list xs / (s::real)"
  by (induction xs) (simp_all add: add_divide_distrib)

lemma weight_vector_sum:
  assumes "keys \<noteq> []"
  shows "sum_list (weight_vector weights keys) = 1"
proof -
  define w where "w = map (\<lambda>k. case weights k of None \<Rightarrow> 0 | Some v \<Rightarrow> v) keys"
  define w1 where "w1 = (if sum_list w = 0 then map (\<lambda>_. 1) w else w)"
  have "sum_list w1 \<noteq> 0"
  proof (cases "sum_list w = 0")
    case True
    then have "w1 = map (\<lambda>_. 1) w" by (simp add: w1_def)
    then have "sum_list w1 = real (length w) * 1" by (simp only: sum_list_const)
    then have "sum_list w1 = real (length keys)" by (simp add: w_def)
    then show ?thesis using assms by simp
  next
    case False
    then show ?thesis by (simp add: w1_def)
  qed
  moreover have "weight_vector weights keys = map (\<lambda>x. x / sum_list w1) w1"
    by (simp add: weight_vector_def Let_def w_def w1_def)
  ultimately show ?thesis by (simp add: sum_list_divide)
qed



lemma fillna0_nth:
  assumes "fillna0 c = Inr vs" and "i < length c"
  shows "vs ! i = (case c ! i of Num v \<Rightarrow> v | _ \<Rightarrow> 0)"
  using assms by (auto simp: fillna0_def split: if_splits)

lemma add_axes_sum:
  assumes "add_axes D ws acc = Inr fs" and "wf_table D" and "length acc = nrows D"
    and "i < nrows D"
  shows "fs ! i = acc ! i + (\<Sum>(w, c)\<leftarrow>ws. w * axis_value D c i)"
  using assms(1,3)
proof (induction ws arbitrary: acc)
  case Nil
  then show ?case by simp
next
  case (Cons a ws)
  obtain wi col where a: "a = (wi, col)" by (cases a)
  from Cons.prems(1) obtain c vs where c: "cols D col = Some c" and vs: "fillna0 c = Inr vs"
    and rest: "add_axes D ws (map (\<lambda>(x, v). x + wi * v) (zip acc vs)) = Inr fs"
    by (auto simp: a split: option.splits sum.splits)
  have lc: "length c = nrows D" using assms(2) c by (simp add: wf_table_def)
  have lv: "length vs = nrows D" using fillna0_length [OF vs] lc by simp
  have la: "length (map (\<lambda>(x, v). x + wi * v) (zip acc vs)) = nrows D"
    using lv Cons.prems(2) by simp
  have v: "vs ! i = axis_value D col i"
    using fillna0_nth [OF vs] assms(4) lc by (simp add: axis_value_def c)
  have "map (\<lambda>(x, v). x + wi * v) (zip acc vs) ! i = acc ! i + wi * axis_value D col i"
    using assms(4) lv Cons.prems(2) v by simp
  with Cons.IH [OF rest la] show ?case by (simp add: a)
qed

lemma length_weight_keys:
  "length (weight_keys (base_axes @ extra_axis_names sf sb self selb))
     = length (base_axes @ extra_axis_names sf sb self selb)"
  by (simp add: weight_keys_def base_axes_def extra_axis_names_def)

lemma zip_const: "length xs = length ys \<Longrightarrow> zip (map (\<lambda>_. c) xs) ys = map (\<lambda>y. (c, y)) ys"
  by (induction xs ys rule: list_induct2) simp_all

lemma sum_list_scaled:
  "(\<Sum>(w, c)\<leftarrow>map (\<lambda>y. (k, y)) ys. w * f c) = (\<Sum>c\<leftarrow>ys. f c) * (k::real)"
  by (induction ys) (simp_all add: algebra_simps)

lemma axis_cols_not_score:
  assumes "c \<in> set (base_axes @ extra_axis_names sf sb self selb)"
  shows "c \<noteq> ''final_score''"
  using assms by (auto simp: base_axes_def extra_axis_names_def split: if_splits)

lemma zero_weight_scores:
  assumes wf: "wf_table df"
    and z: "\<forall>k\<in>set (weight_keys (base_axes @ extra_axis_names sf sb self selb)).
              w0 k = None \<or> w0 k = Some 0"
    and sc: "scored P S df w0 None sf sb self selb = Inr (D, fs)"
    and i: "i < nrows df"
  shows "fs ! i = (\<Sum>c\<leftarrow>base_axes @ extra_axis_names sf sb self selb. axis_value D c i)
                  / real (length (base_axes @ extra_axis_names sf sb self selb))"
proof -
  let ?cols = "base_axes @ extra_axis_names sf sb self selb"
  let ?keys = "weight_keys ?cols"
  define D2 where "D2 = with_prefs S sf sb self selb (with_axes P df)"
  have wf2: "wf_table D2" by (simp add: D2_def wf_with_prefs wf_with_axes wf)
  have n2: "nrows D2 = nrows df" by (simp add: D2_def nrows_with_prefs nrows_with_axes)
  have wv: "weight_vector w0 ?keys = map (\<lambda>_. 1 / real (length ?keys)) ?keys"
    using z by (rule weight_vector_zero)
  from scored_without_budget [OF sc]
  have ax: "add_axes D2 (zip (weight_vector w0 ?keys) ?cols) (replicate (nrows df) 0) = Inr fs"
    and D: "D = D2\<lparr>cols := (cols D2)(''final_score'' \<mapsto> map Num fs)\<rparr>"
    unfolding D2_def by simp_all
  have zp: "zip (weight_vector w0 ?keys) ?cols = map (\<lambda>y. (1 / real (length ?keys), y)) ?cols"
    unfolding wv using length_weight_keys by (rule zip_const)
  have "fs ! i = replicate (nrows df) 0 ! i
                 + (\<Sum>(w, c)\<leftarrow>zip (weight_vector w0 ?keys) ?cols. w * axis_value D2 c i)"
    using add_axes_sum [OF ax wf2] n2 i by simp
  also have "\<dots> = (\<Sum>c\<leftarrow>?cols. axis_value D2 c i) * (1 / real (length ?keys))"
    unfolding zp sum_list_scaled using i by simp
  also have "(\<Sum>c\<leftarrow>?cols. axis_value D2 c i) = (\<Sum>c\<leftarrow>?cols. axis_value D c i)"
  proof (rule arg_cong [where f = sum_list], rule map_cong [OF refl])
    fix c assume "c \<in> set ?cols"
    from axis_cols_not_score [OF this] show "axis_value D2 c i = axis_value D c i"
      by (simp add: axis_value_def D)
  qed
  finally show ?thesis by (simp add: length_weight_keys)
qed











text \<open>
  C10: two calls of \<open>recommend\<close> that differ only in \<open>soft_fuel_weight\<close> and
  \<open>soft_body_weight\<close> return the same result; with both soft-preference axes active the
  weights are looked up under the keys \<open>fuel_pref\<close> and \<open>body_pref\<close> of the weight map.
\<close>

theorem recommend_ignores_soft_weight_arguments:
  "recommend P S df weights top_n filters soft_fuel soft_body selected_fuel selected_body a b
     = recommend P S df weights top_n filters soft_fuel soft_body selected_fuel selected_body a' b'
   \<and> weight_keys (base_axes @ [''axis_fuel_pref'', ''axis_body_pref''])
     = [''performance'', ''economy'', ''safety'', ''comfort'', ''ownership'', ''price'',
        ''fuel_pref'', ''body_pref'']"
  by (simp add: recommend_def weight_keys_def base_axes_def)

section \<open>Ranking engine: budget penalty\<close>









end
